theory Spec2Isabelle
  imports Main
begin

section \<open>JavaScript strings\<close>

text \<open>
  A JavaScript string is a sequence of UTF-16 code units; each code unit is modelled as a
  natural number.  String literals of the script are written with \<open>js\<close>, which maps
  every character of an ASCII literal to its code unit.
\<close>

type_synonym jsstring = "nat list"

definition js :: "string \<Rightarrow> jsstring" where
  "js s = map of_char s"

text \<open>
  The classes of ECMAScript: \<open>LineTerminator\<close> (LF, CR, LS, PS) is what the regular
  expression atom \<^verbatim>\<open>.\<close> refuses; \<open>WhiteSpace\<close> together with \<open>LineTerminator\<close> is what
  \<^verbatim>\<open>\s\<close> accepts and what \<^verbatim>\<open>trim()\<close> strips.
\<close>

definition isLineTerminator :: "nat \<Rightarrow> bool" where
  "isLineTerminator c = (c \<in> set [10, 13, 8232, 8233])"

definition isWhiteSpace :: "nat \<Rightarrow> bool" where
  "isWhiteSpace c =
     (c \<in> set [9, 10, 11, 12, 13, 32, 160, 5760, 8232, 8233, 8239, 8287, 12288, 65279]
      \<or> (8192 \<le> c \<and> c \<le> 8202))"

definition trim :: "jsstring \<Rightarrow> jsstring" where
  "trim s = rev (dropWhile isWhiteSpace (rev (dropWhile isWhiteSpace s)))"

definition startsWith :: "jsstring \<Rightarrow> jsstring \<Rightarrow> bool" where
  "startsWith s l = (take (length l) s = l)"

fun includes_js :: "jsstring \<Rightarrow> jsstring \<Rightarrow> bool" where
  "includes_js [] l = startsWith [] l"
| "includes_js (c # cs) l = (startsWith (c # cs) l \<or> includes_js cs l)"

text \<open>
  \<^verbatim>\<open>text.replace(/\n/g, "<br>")\<close> of \<^verbatim>\<open>addMessage\<close>: every line feed becomes the four
  code units of \<^verbatim>\<open><br>\<close>.
\<close>

definition nl2br :: "jsstring \<Rightarrow> jsstring" where
  "nl2br s = concat (map (\<lambda>c. if c = 10 then js ''<br>'' else [c]) s)"

subsection \<open>The fragment of regular expressions the script uses\<close>

text \<open>
  A backtracking matcher in continuation-passing style, as ECMAScript specifies matching:
  a character class, a literal, a greedy star over a character class, a greedy optional
  group and sequencing.  \<open>rx_match r s k\<close> matches \<open>r\<close> at the front of \<open>s\<close> and hands the
  rest to the continuation \<open>k\<close>; when the continuation fails, a greedy quantifier gives
  back one repetition and tries again.
\<close>

datatype rx = Lit jsstring | Star "nat \<Rightarrow> bool" | Opt rx | Seq rx rx

fun rx_match :: "rx \<Rightarrow> jsstring \<Rightarrow> (jsstring \<Rightarrow> jsstring option) \<Rightarrow> jsstring option" where
  "rx_match (Lit l) s k = (if startsWith s l then k (drop (length l) s) else None)"
| "rx_match (Star p) s k =
     (case s of
        [] \<Rightarrow> k []
      | c # cs \<Rightarrow>
          if p c
          then (case rx_match (Star p) cs k of Some r \<Rightarrow> Some r | None \<Rightarrow> k s)
          else k s)"
| "rx_match (Opt a) s k = (case rx_match a s k of Some r \<Rightarrow> Some r | None \<Rightarrow> k s)"
| "rx_match (Seq a b) s k = rx_match a s (\<lambda>s'. rx_match b s' k)"

text \<open>
  \<^verbatim>\<open>s.replace(r, "")\<close> for a regular expression without the \<^verbatim>\<open>g\<close> flag: the leftmost
  position at which \<open>r\<close> matches is found, the matched text is deleted, and a string
  without a match is returned as it is.  \<open>replace_first r pre s\<close> has already skipped the
  code units \<open>pre\<close> (kept in reverse).
\<close>

fun replace_first :: "rx \<Rightarrow> jsstring \<Rightarrow> jsstring \<Rightarrow> jsstring option" where
  "replace_first r pre [] =
     (case rx_match r [] Some of Some rest \<Rightarrow> Some (rev pre @ rest) | None \<Rightarrow> None)"
| "replace_first r pre (c # cs) =
     (case rx_match r (c # cs) Some of
        Some rest \<Rightarrow> Some (rev pre @ rest)
      | None \<Rightarrow> replace_first r (c # pre) cs)"

definition replace_rx :: "rx \<Rightarrow> jsstring \<Rightarrow> jsstring" where
  "replace_rx r s = (case replace_first r [] s of Some t \<Rightarrow> t | None \<Rightarrow> s)"

text \<open>The pattern \<^verbatim>\<open>/.*Heartbeat:\s*(Autonomy:\s*)?/\<close> of the \<^verbatim>\<open>log\<close> handler.\<close>

definition heartbeat_rx :: rx where
  "heartbeat_rx =
     Seq (Star (\<lambda>c. \<not> isLineTerminator c))
       (Seq (Lit (js ''Heartbeat:''))
         (Seq (Star isWhiteSpace)
           (Opt (Seq (Lit (js ''Autonomy:'')) (Star isWhiteSpace)))))"

text \<open>
  Two notions for stating what the pattern does.  \<open>backtrack k a b\<close> is the search a greedy
  star performs once it has consumed \<open>a\<close> and \<open>b\<close> is left: the continuation is tried after
  all of \<open>a\<close> first and then after one code unit less, down to none.  \<open>afterMarker\<close> is
  what follows the marker once white space and the optional \<^verbatim>\<open>Autonomy:\<close> prefix with its
  white space are dropped.
\<close>

fun backtrack :: "(jsstring \<Rightarrow> jsstring option) \<Rightarrow> jsstring \<Rightarrow> jsstring \<Rightarrow> jsstring option" where
  "backtrack k [] b = k b"
| "backtrack k (x # a) b =
     (case backtrack k a b of Some r \<Rightarrow> Some r | None \<Rightarrow> k (x # a @ b))"

definition afterMarker :: "jsstring \<Rightarrow> jsstring" where
  "afterMarker rest =
     (let r = dropWhile isWhiteSpace rest
      in if startsWith r (js ''Autonomy:'') then dropWhile isWhiteSpace (drop 9 r) else r)"

section \<open>Bounded stream buffers\<close>

text \<open>
  The log console and the thought stream are DOM containers; each is modelled as the list
  of the texts of its children, first child first.

  \<^verbatim>\<open>addLog\<close> appends a line stamped with the wall-clock time (the parameter \<open>now\<close>, the
  formatted time of day) and then removes first children while more than 200 remain.
\<close>

function evictFirst :: "jsstring list \<Rightarrow> jsstring list" where
  "evictFirst xs = (if length xs > 200 then evictFirst (tl xs) else xs)"
  by pat_completeness auto
termination
  by (relation "measure length") auto

definition logLine :: "jsstring \<Rightarrow> jsstring \<Rightarrow> jsstring" where
  "logLine now text = js ''['' @ now @ js ''] '' @ text"

definition addLog :: "jsstring \<Rightarrow> jsstring \<Rightarrow> jsstring list \<Rightarrow> jsstring list" where
  "addLog now text console = evictFirst (console @ [logLine now text])"

text \<open>
  \<^verbatim>\<open>addThought\<close> prepends the entry and then, once, removes the last child if more than
  20 remain.
\<close>

definition addThought :: "jsstring \<Rightarrow> jsstring list \<Rightarrow> jsstring list" where
  "addThought text stream =
     (let ts = text # stream in if length ts > 20 then butlast ts else ts)"

text \<open>
  Insertions one after the other, the first of the list first.  A log entry is a pair of
  its time stamp and its text.
\<close>

fun addThoughts :: "jsstring list \<Rightarrow> jsstring list \<Rightarrow> jsstring list" where
  "addThoughts [] stream = stream"
| "addThoughts (t # ts) stream = addThoughts ts (addThought t stream)"

fun addLogs :: "(jsstring \<times> jsstring) list \<Rightarrow> jsstring list \<Rightarrow> jsstring list" where
  "addLogs [] console = console"
| "addLogs (e # es) console = addLogs es (addLog (fst e) (snd e) console)"

section \<open>Connection manager and message dispatcher (script.js)\<close>

text \<open>
  The globals of the script and the parts of the page it writes, as one record.
  Every \<^verbatim>\<open>new WebSocket\<close> adds an entry to \<open>sockets\<close>; \<open>ws\<close> is the index of the socket
  the global \<^verbatim>\<open>ws\<close> refers to (\<open>None\<close> before the first connection).  \<open>timers\<close> are the
  pending timeouts of the browser, each with its handle and its delay in milliseconds;
  \<open>reconnectTimer\<close> is the handle stored in the global of that name.  What the script asks
  of its environment (a status fetch, a journal load, a frame sent on a socket) is
  appended to \<open>requests\<close>.  \<open>toUpperCase\<close> is \<^verbatim>\<open>String.prototype.toUpperCase\<close> of the browser,
  which the script calls on status labels; its Unicode case mapping is not spelled out
  here, so every property below holds whatever this function is.
\<close>

datatype readyState = CONNECTING | OPEN | CLOSING | CLOSED

datatype request = FetchStatus | LoadJournal | WsSend nat jsstring

record client =
  ws :: "nat option"
  sockets :: "readyState list"
  reconnectDelay :: nat
  reconnectTimer :: "nat option"
  timers :: "(nat \<times> nat) list"
  nextTimer :: nat
  statusText :: jsstring
  statusColor :: jsstring
  connectionDot :: "jsstring option"
  chatWindow :: "(jsstring \<times> jsstring) list"
  userInput :: jsstring
  logConsole :: "jsstring list"
  thoughtStream :: "jsstring list"
  journalTabActive :: bool
  requests :: "request list"
  toUpperCase :: "jsstring \<Rightarrow> jsstring"

definition updateStatus :: "jsstring \<Rightarrow> client \<Rightarrow> client" where
  "updateStatus status c =
     c\<lparr>statusText := status,
       statusColor :=
         (if status = js ''THINKING'' then js ''var(--yellow)''
          else if status = js ''SPEAKING'' then js ''var(--cyan)''
          else if status = js ''OFFLINE'' then js ''var(--red)''
          else js ''var(--green)'')\<rparr>"

definition addMessage :: "jsstring \<Rightarrow> jsstring \<Rightarrow> client \<Rightarrow> client" where
  "addMessage role text c = c\<lparr>chatWindow := chatWindow c @ [(role, nl2br text)]\<rparr>"

definition setConnectionDot :: "jsstring \<Rightarrow> client \<Rightarrow> client" where
  "setConnectionDot cls c =
     (case connectionDot c of None \<Rightarrow> c | Some _ \<Rightarrow> c\<lparr>connectionDot := Some cls\<rparr>)"

text \<open>
  \<^verbatim>\<open>clearTimeout\<close> removes the timeout with the given handle from the pending ones and
  does nothing for \<^verbatim>\<open>null\<close> or for a handle that is not pending; \<^verbatim>\<open>setTimeout\<close> adds a
  timeout under a fresh handle.
\<close>

definition clearTimeout :: "nat option \<Rightarrow> (nat \<times> nat) list \<Rightarrow> (nat \<times> nat) list" where
  "clearTimeout h ts = (case h of None \<Rightarrow> ts | Some t \<Rightarrow> filter (\<lambda>p. fst p \<noteq> t) ts)"

definition connectWebSocket :: "client \<Rightarrow> client" where
  "connectWebSocket c =
     c\<lparr>ws := Some (length (sockets c)), sockets := sockets c @ [CONNECTING]\<rparr>"

definition ws_onopen :: "jsstring \<Rightarrow> client \<Rightarrow> client" where
  "ws_onopen now c =
     (let c1 = c\<lparr>reconnectDelay := 1000\<rparr>;
          c2 = c1\<lparr>timers := clearTimeout (reconnectTimer c1) (timers c1)\<rparr>;
          c3 = c2\<lparr>logConsole := addLog now (js ''SYSTEM: Uplink established.'') (logConsole c2)\<rparr>;
          c4 = updateStatus (js ''ONLINE'') c3;
          c5 = setConnectionDot (js ''status-indicator online'') c4
      in c5\<lparr>requests := requests c5 @ [FetchStatus]\<rparr>)"

text \<open>
  The text of \<^verbatim>\<open>${reconnectDelay / 1000}\<close>: the decimal digits of the quotient, and for
  a delay that is not a whole number of seconds a point and the thousandths without
  trailing zeros.
\<close>

fun showNat :: "nat \<Rightarrow> jsstring" where
  "showNat n = (if n < 10 then [48 + n] else showNat (n div 10) @ [48 + n mod 10])"

definition showSeconds :: "nat \<Rightarrow> jsstring" where
  "showSeconds ms =
     showNat (ms div 1000) @
     (if ms mod 1000 = 0 then []
      else 46 # rev (dropWhile (\<lambda>d. d = 48)
             (rev [48 + ms mod 1000 div 100, 48 + ms mod 100 div 10, 48 + ms mod 10])))"

definition ws_onclose :: "jsstring \<Rightarrow> client \<Rightarrow> client" where
  "ws_onclose now c =
     (let c1 = c\<lparr>logConsole :=
                 addLog now
                   (js ''SYSTEM: Uplink lost. Reconnecting in '' @ showSeconds (reconnectDelay c)
                      @ js ''s...'')
                   (logConsole c)\<rparr>;
          c2 = updateStatus (js ''OFFLINE'') c1;
          c3 = setConnectionDot (js ''status-indicator'') c2
      in c3\<lparr>reconnectTimer := Some (nextTimer c3),
            timers := timers c3 @ [(nextTimer c3, reconnectDelay c3)],
            nextTimer := Suc (nextTimer c3)\<rparr>)"

text \<open>The callback of the timeout set by \<^verbatim>\<open>onclose\<close>.\<close>

definition reconnect :: "client \<Rightarrow> client" where
  "reconnect c = connectWebSocket (c\<lparr>reconnectDelay := min (reconnectDelay c * 2) 30000\<rparr>)"

text \<open>
  An inbound frame after \<^verbatim>\<open>JSON.parse\<close>, by its \<^verbatim>\<open>type\<close> field; \<open>Unknown\<close> stands for every
  other value of the field.  A frame that does not parse makes the handler raise before
  it has changed anything: it is the frame \<open>None\<close>.
\<close>

datatype inbound =
    Response jsstring
  | Status jsstring
  | Log jsstring
  | RefreshStatus
  | RefreshJournal
  | Unknown

definition ws_onmessage :: "jsstring \<Rightarrow> inbound option \<Rightarrow> client \<Rightarrow> client" where
  "ws_onmessage now frame c =
     (case frame of
        None \<Rightarrow> c
      | Some (Response content) \<Rightarrow> updateStatus (js ''IDLE'') (addMessage (js ''assistant'') content c)
      | Some (Status status) \<Rightarrow> updateStatus (toUpperCase c status) c
      | Some (Log content) \<Rightarrow>
          (let c1 = c\<lparr>logConsole := addLog now content (logConsole c)\<rparr>
           in if includes_js content (js ''Heartbeat:'')
              then (let thought = trim (replace_rx heartbeat_rx content)
                    in if thought \<noteq> []
                       then c1\<lparr>thoughtStream := addThought thought (thoughtStream c1)\<rparr>
                       else c1)
              else c1)
      | Some RefreshStatus \<Rightarrow> c\<lparr>requests := requests c @ [FetchStatus]\<rparr>
      | Some RefreshJournal \<Rightarrow>
          (if journalTabActive c then c\<lparr>requests := requests c @ [LoadJournal]\<rparr> else c)
      | Some Unknown \<Rightarrow> c)"

text \<open>
  \<^verbatim>\<open>sendMessage\<close>.  The channel is open when \<^verbatim>\<open>ws\<close> is set and the \<^verbatim>\<open>readyState\<close> of
  its socket is \<^verbatim>\<open>OPEN\<close>; \<open>openSocket\<close> returns that socket.  The dash of the notice is
  the code unit U+2014.
\<close>

definition openSocket :: "nat option \<Rightarrow> readyState list \<Rightarrow> nat option" where
  "openSocket w ss =
     (case w of
        None \<Rightarrow> None
      | Some i \<Rightarrow> if i < length ss \<and> ss ! i = OPEN then Some i else None)"

definition sendMessage :: "jsstring \<Rightarrow> client \<Rightarrow> client" where
  "sendMessage now c =
     (let text = trim (userInput c)
      in if text = [] then c
         else (case openSocket (ws c) (sockets c) of
                 None \<Rightarrow>
                   c\<lparr>logConsole :=
                       addLog now
                         (js ''SYSTEM: Cannot send '' @ [8212] @ js '' uplink not connected.'')
                         (logConsole c)\<rparr>
               | Some i \<Rightarrow>
                   (let c1 = addMessage (js ''user'') text c;
                        c2 = c1\<lparr>requests := requests c1 @ [WsSend i text]\<rparr>;
                        c3 = c2\<lparr>userInput := []\<rparr>
                    in updateStatus (js ''THINKING'') c3)))"

subsection \<open>The events of the browser\<close>

text \<open>
  The handlers run one at a time, each to completion.  An event is enabled by the state of
  the browser: a socket opens only while it is connecting, closes once, delivers frames
  only while it is open, and a timeout fires only while it is pending.  A socket that
  closes runs \<^verbatim>\<open>onclose\<close> whether or not it had opened; \<^verbatim>\<open>onerror\<close> does nothing.
  The periodic poll set up with \<^verbatim>\<open>setInterval\<close> is not a timeout: it is never cleared and
  touches none of the fields below but through \<^verbatim>\<open>fetchStatus\<close>, which has a section of its
  own.
\<close>

datatype event =
    SocketOpens nat jsstring
  | SocketClosing nat
  | SocketCloses nat jsstring
  | SocketError nat
  | SocketMessage nat jsstring "inbound option"
  | TimerFires nat
  | UserTypes jsstring
  | UserSends jsstring

fun enabled :: "event \<Rightarrow> client \<Rightarrow> bool" where
  "enabled (SocketOpens i now) c = (i < length (sockets c) \<and> sockets c ! i = CONNECTING)"
| "enabled (SocketClosing i) c = (i < length (sockets c) \<and> sockets c ! i = OPEN)"
| "enabled (SocketCloses i now) c = (i < length (sockets c) \<and> sockets c ! i \<noteq> CLOSED)"
| "enabled (SocketError i) c = (i < length (sockets c) \<and> sockets c ! i \<noteq> CLOSED)"
| "enabled (SocketMessage i now frame) c = (i < length (sockets c) \<and> sockets c ! i = OPEN)"
| "enabled (TimerFires t) c = (t \<in> fst ` set (timers c))"
| "enabled (UserTypes text) c = True"
| "enabled (UserSends now) c = True"

fun handle :: "event \<Rightarrow> client \<Rightarrow> client" where
  "handle (SocketOpens i now) c = ws_onopen now (c\<lparr>sockets := (sockets c)[i := OPEN]\<rparr>)"
| "handle (SocketClosing i) c = c\<lparr>sockets := (sockets c)[i := CLOSING]\<rparr>"
| "handle (SocketCloses i now) c = ws_onclose now (c\<lparr>sockets := (sockets c)[i := CLOSED]\<rparr>)"
| "handle (SocketError i) c = c"
| "handle (SocketMessage i now frame) c = ws_onmessage now frame c"
| "handle (TimerFires t) c = reconnect (c\<lparr>timers := filter (\<lambda>p. fst p \<noteq> t) (timers c)\<rparr>)"
| "handle (UserTypes text) c = c\<lparr>userInput := text\<rparr>"
| "handle (UserSends now) c = sendMessage now c"

text \<open>
  The script starts with \<^verbatim>\<open>ws\<close> unset, a delay of 1000 ms, no timer, and calls
  \<^verbatim>\<open>connectWebSocket\<close> once; \<open>page\<close> gives the content of the page at that moment.
\<close>

definition boot :: "client \<Rightarrow> client" where
  "boot page =
     connectWebSocket
       (page\<lparr>ws := None, sockets := [], reconnectDelay := 1000, reconnectTimer := None,
             timers := [], requests := []\<rparr>)"

inductive reachable :: "client \<Rightarrow> bool" where
  reachable_boot: "reachable (boot page)"
| reachable_step: "reachable c \<Longrightarrow> enabled e c \<Longrightarrow> reachable (handle e c)"

text \<open>
  A run of consecutive failures: the current socket closes, the timeout that \<^verbatim>\<open>onclose\<close>
  set fires and connects again, and so on, once for each time stamp of \<open>nows\<close>.  The
  result lists the delay of the timeout set at each failure.
\<close>

fun failureDelays :: "jsstring list \<Rightarrow> client \<Rightarrow> nat list" where
  "failureDelays [] c = []"
| "failureDelays (now # nows) c =
     (case ws c of
        None \<Rightarrow> []
      | Some i \<Rightarrow>
          if \<not> enabled (SocketCloses i now) c then []
          else (let c1 = handle (SocketCloses i now) c
                in case reconnectTimer c1 of
                     None \<Rightarrow> []
                   | Some t \<Rightarrow>
                       if \<not> enabled (TimerFires t) c1 then []
                       else map snd (filter (\<lambda>p. fst p = t) (timers c1))
                            @ failureDelays nows (handle (TimerFires t) c1)))"

text \<open>
  A page without content, on which the script has not run yet.  Its \<open>toUpperCase\<close> is the
  case mapping of the ASCII letters, with which the one of the browser agrees on ASCII
  strings.
\<close>

definition asciiUpperCase :: "jsstring \<Rightarrow> jsstring" where
  "asciiUpperCase s = map (\<lambda>c. if 97 \<le> c \<and> c \<le> 122 then c - 32 else c) s"

definition blankPage :: client where
  "blankPage =
     \<lparr>ws = None, sockets = [], reconnectDelay = 1000, reconnectTimer = None, timers = [],
      nextTimer = 1, statusText = [], statusColor = [], connectionDot = Some [],
      chatWindow = [], userInput = [], logConsole = [], thoughtStream = [],
      journalTabActive = False, requests = [], toUpperCase = asciiUpperCase\<rparr>"

text \<open>The number of sockets that have not closed yet.\<close>

definition live :: "readyState list \<Rightarrow> nat" where
  "live ss = length (filter (\<lambda>s. s \<noteq> CLOSED) ss)"

text \<open>The global \<^verbatim>\<open>ws\<close> refers to the newest socket, and every other socket has closed.\<close>

definition current :: "client \<Rightarrow> bool" where
  "current c =
     (\<exists>j. ws c = Some j \<and> j < length (sockets c)
          \<and> (\<forall>k < length (sockets c). k \<noteq> j \<longrightarrow> sockets c ! k = CLOSED))"

section \<open>The Ether script\<close>

text \<open>
  The second dashboard script of the repository has its own \<^verbatim>\<open>sendMessage\<close>.  Its state,
  as far as \<^verbatim>\<open>sendMessage\<close> reads or writes it; \<open>marked\<close> stands for the Markdown renderer
  applied to assistant messages.
\<close>

record ether =
  ether_ws :: "nat option"
  ether_sockets :: "readyState list"
  chatInput :: jsstring
  chatMessages :: "(jsstring \<times> jsstring) list"
  orb :: jsstring
  stateLabel :: jsstring
  liveStream :: "jsstring list"
  ether_sent :: "(nat \<times> jsstring) list"

definition setOrbState :: "jsstring \<Rightarrow> ether \<Rightarrow> ether" where
  "setOrbState state e =
     e\<lparr>orb := js ''orb '' @ state,
       stateLabel :=
         (if state = js ''thinking'' then js ''Nexus Reasoning''
          else if state = js ''speaking'' then js ''Nexus Speaking''
          else js ''Nexus Core'')\<rparr>"

definition addChatMessage ::
  "(jsstring \<Rightarrow> jsstring) \<Rightarrow> jsstring \<Rightarrow> jsstring \<Rightarrow> ether \<Rightarrow> ether" where
  "addChatMessage marked role text e =
     e\<lparr>chatMessages :=
         chatMessages e @ [(role, if role = js ''assistant'' then marked text else text)]\<rparr>"

definition ether_sendMessage :: "(jsstring \<Rightarrow> jsstring) \<Rightarrow> ether \<Rightarrow> ether" where
  "ether_sendMessage marked e =
     (let text = trim (chatInput e)
      in if text = [] then e
         else (case openSocket (ether_ws e) (ether_sockets e) of
                 None \<Rightarrow> e
               | Some i \<Rightarrow>
                   (let e1 = addChatMessage marked (js ''user'') text e;
                        e2 = e1\<lparr>ether_sent := ether_sent e1 @ [(i, text)]\<rparr>;
                        e3 = e2\<lparr>chatInput := []\<rparr>
                    in setOrbState (js ''thinking'') e3)))"

text \<open>The Ether page without content and before the first connection.\<close>

definition blankEther :: ether where
  "blankEther =
     \<lparr>ether_ws = None, ether_sockets = [], chatInput = [], chatMessages = [], orb = [],
      stateLabel = [], liveStream = [], ether_sent = []\<rparr>"

section \<open>Graph synchronizer\<close>

text \<open>
  A node of the graph has an id; an edge of the API has no id, only its end points and a
  label.  \<open>edgeKey\<close> is the template literal \<^verbatim>\<open>`${e.from}|${e.to}|${e.label}`\<close>.
\<close>

record node =
  node_id :: jsstring
  node_label :: jsstring

record edge =
  edge_from :: jsstring
  edge_to :: jsstring
  edge_label :: jsstring

definition edgeKey :: "edge \<Rightarrow> jsstring" where
  "edgeKey e = edge_from e @ js ''|'' @ edge_to e @ js ''|'' @ edge_label e"

text \<open>
  \<open>network\<close> tells whether the global \<^verbatim>\<open>network\<close> is set; \<open>nodes\<close> and \<open>edges\<close> are the
  items of the two data sets of \<^verbatim>\<open>graphData\<close> in the order they were added.
\<close>

record graph =
  network :: bool
  nodes :: "node list"
  edges :: "edge list"

datatype js_error = DuplicateId jsstring

text \<open>
  \<^verbatim>\<open>DataSet.add\<close> of the vis library adds the items one after the other and raises at
  an item whose id the data set already holds.  An item without an id is given a fresh
  one, so adding edges never raises.  The model does not say what the data sets hold after
  a raise.
\<close>

fun dataset_add :: "node list \<Rightarrow> node list \<Rightarrow> js_error + node list" where
  "dataset_add ds [] = Inr ds"
| "dataset_add ds (n # ns) =
     (if node_id n \<in> set (map node_id ds) then Inl (DuplicateId (node_id n))
      else dataset_add (ds @ [n]) ns)"

text \<open>
  The body of the response of \<^verbatim>\<open>/api/memory/graph\<close>; \<open>data_nodes\<close> is \<open>None\<close> when the
  field \<^verbatim>\<open>nodes\<close> is missing.
\<close>

record graph_data =
  data_nodes :: "node list option"
  data_edges :: "edge list"

text \<open>
  One pass of \<^verbatim>\<open>loadGraph(force)\<close>: \<open>container\<close> tells whether the page has the element
  of the network, \<open>response\<close> is what the fetch delivers (\<open>None\<close> when it fails, and then
  the callback never runs).
\<close>

definition loadGraph :: "bool \<Rightarrow> bool \<Rightarrow> graph_data option \<Rightarrow> graph \<Rightarrow> js_error + graph" where
  "loadGraph container force response g =
     (if \<not> container then Inr g
      else case response of
        None \<Rightarrow> Inr g
      | Some data \<Rightarrow>
          (case data_nodes data of
             None \<Rightarrow> Inr g
           | Some fetched \<Rightarrow>
               if \<not> network g
               then (case dataset_add (nodes g) fetched of
                       Inl err \<Rightarrow> Inl err
                     | Inr ns \<Rightarrow>
                         Inr (g\<lparr>nodes := ns, edges := edges g @ data_edges data,
                                network := True\<rparr>))
               else if force
               then (let existingNodeIds = set (map node_id (nodes g));
                         newNodes = filter (\<lambda>n. node_id n \<notin> existingNodeIds) fetched
                     in case (if newNodes \<noteq> [] then dataset_add (nodes g) newNodes
                              else Inr (nodes g)) of
                          Inl err \<Rightarrow> Inl err
                        | Inr ns \<Rightarrow>
                            (let existingEdgeKeys = set (map edgeKey (edges g));
                                 newEdges =
                                   filter (\<lambda>e. edgeKey e \<notin> existingEdgeKeys) (data_edges data)
                             in Inr (g\<lparr>nodes := ns,
                                       edges := (if newEdges \<noteq> [] then edges g @ newEdges
                                                 else edges g)\<rparr>)))
               else Inr g))"

text \<open>
  The deltas as the design states them: the fetched nodes whose id is absent from the
  current ids, and the fetched edges whose key is absent from the current keys.
\<close>

definition newNodes :: "graph \<Rightarrow> node list \<Rightarrow> node list" where
  "newNodes g fetched = filter (\<lambda>n. node_id n \<notin> set (map node_id (nodes g))) fetched"

definition newEdges :: "graph \<Rightarrow> edge list \<Rightarrow> edge list" where
  "newEdges g fetched = filter (\<lambda>e. edgeKey e \<notin> set (map edgeKey (edges g))) fetched"

text \<open>
  The scenario of the design: a state seeded with three nodes and two edges, and a later
  response with the same nodes and edges plus one new node and one new edge.
\<close>

definition seededGraph :: graph where
  "seededGraph =
     \<lparr>network = True,
      nodes = [\<lparr>node_id = js ''a'', node_label = js ''A''\<rparr>,
               \<lparr>node_id = js ''b'', node_label = js ''B''\<rparr>,
               \<lparr>node_id = js ''c'', node_label = js ''C''\<rparr>],
      edges = [\<lparr>edge_from = js ''a'', edge_to = js ''b'', edge_label = js ''x''\<rparr>,
               \<lparr>edge_from = js ''b'', edge_to = js ''c'', edge_label = js ''y''\<rparr>]\<rparr>"

definition laterResponse :: graph_data where
  "laterResponse =
     \<lparr>data_nodes = Some (nodes seededGraph @ [\<lparr>node_id = js ''d'', node_label = js ''D''\<rparr>]),
      data_edges =
        edges seededGraph @ [\<lparr>edge_from = js ''c'', edge_to = js ''d'', edge_label = js ''z''\<rparr>]\<rparr>"

section \<open>Status change detector\<close>

text \<open>
  The body of the response of \<^verbatim>\<open>/api/status\<close>.  A field that is missing or
  \<^verbatim>\<open>null\<close> is \<open>None\<close>.
\<close>

record subtask =
  task_description :: jsstring
  task_status :: jsstring

record goal =
  goal_goal :: "jsstring option"
  goal_subtasks :: "subtask list option"

record status_data =
  memory_count :: "int option"
  data_goal :: "goal option"

text \<open>
  What \<^verbatim>\<open>fetchStatus\<close> reads and writes: the element of the memory counter (\<open>None\<close> when the
  page has none, else its text), the global \<^verbatim>\<open>lastMemoryCount\<close>, whether the graph view
  has the class \<^verbatim>\<open>active\<close>, the goal title with its colour, and the subtask list, which
  holds either one placeholder or the rendered subtasks (description, completed).  The
  elements of the graph view, of the goal title and of the subtask list are taken to be
  in the page: the script uses them without a check.
\<close>

datatype subtask_panel = EmptyState jsstring | Subtasks "(jsstring \<times> bool) list"

record status_view =
  memoryCount :: "jsstring option"
  lastMemoryCount :: int
  graphViewActive :: bool
  goalTitle :: jsstring
  goalTitleColor :: jsstring
  subtaskList :: subtask_panel

definition showInt :: "int \<Rightarrow> jsstring" where
  "showInt i = (if i < 0 then js ''-'' @ showNat (nat (- i)) else showNat (nat i))"

definition renderSubtasks :: "subtask list \<Rightarrow> subtask_panel" where
  "renderSubtasks tasks =
     (if tasks = [] then EmptyState (js ''No subtasks'')
      else Subtasks (map (\<lambda>t. (task_description t, task_status t = js ''completed'')) tasks))"

text \<open>\<^verbatim>\<open>data.memory_count || 0\<close>.\<close>

definition countOf :: "status_data \<Rightarrow> int" where
  "countOf d = (case memory_count d of None \<Rightarrow> 0 | Some n \<Rightarrow> if n = 0 then 0 else n)"

text \<open>
  The statements of \<^verbatim>\<open>fetchStatus\<close> after the response has arrived.  The result is the
  new state and whether \<^verbatim>\<open>loadGraph(true)\<close> was called.
\<close>

definition showNoGoal :: "status_view \<Rightarrow> status_view" where
  "showNoGoal v =
     v\<lparr>goalTitle := js ''No active goal'', goalTitleColor := js ''var(--text-dim)'',
       subtaskList := EmptyState (js ''System Idle'')\<rparr>"

definition showGoal :: "jsstring \<Rightarrow> subtask list \<Rightarrow> status_view \<Rightarrow> status_view" where
  "showGoal title tasks v =
     v\<lparr>goalTitle := title, goalTitleColor := js ''var(--text-main)'',
       subtaskList := renderSubtasks tasks\<rparr>"

definition detectChange :: "status_data \<Rightarrow> status_view \<Rightarrow> status_view \<times> bool" where
  "detectChange d v =
     (case memoryCount v of
        None \<Rightarrow> (v, False)
      | Some _ \<Rightarrow>
          (let count = countOf d;
               v0 = v\<lparr>memoryCount := Some (showInt count)\<rparr>
           in if count > lastMemoryCount v0
              then (let forced = (lastMemoryCount v0 \<noteq> - 1 \<and> graphViewActive v0)
                    in (v0\<lparr>lastMemoryCount := count\<rparr>, forced))
              else (v0, False)))"

definition fetchStatus :: "status_data \<Rightarrow> status_view \<Rightarrow> status_view \<times> bool" where
  "fetchStatus d v =
     (let (v1, forced) = detectChange d v
      in case data_goal d of
           None \<Rightarrow> (showNoGoal v1, forced)
         | Some g \<Rightarrow>
             (case goal_goal g of
                None \<Rightarrow> (showNoGoal v1, forced)
              | Some title \<Rightarrow>
                  if title \<noteq> [] \<and> title \<noteq> js ''Idle''
                  then (showGoal title (case goal_subtasks g of None \<Rightarrow> [] | Some ts \<Rightarrow> ts) v1,
                        forced)
                  else (showNoGoal v1, forced)))"

text \<open>The script starts with \<^verbatim>\<open>lastMemoryCount\<close> at the sentinel -1.\<close>

definition statusAtStart :: "status_view \<Rightarrow> status_view" where
  "statusAtStart page = page\<lparr>lastMemoryCount := - 1\<rparr>"

text \<open>
  What happens to the detector over time: snapshots are processed one after the other,
  and in between the graph view may become active or inactive.  \<open>observed\<close> lists the
  counts of the snapshots of a run, the first one first.
\<close>

datatype status_event = Snapshot status_data | ViewActive bool

fun statusRun :: "status_event list \<Rightarrow> status_view \<Rightarrow> status_view" where
  "statusRun [] v = v"
| "statusRun (Snapshot d # es) v = statusRun es (fst (fetchStatus d v))"
| "statusRun (ViewActive a # es) v = statusRun es (v\<lparr>graphViewActive := a\<rparr>)"

fun observed :: "status_event list \<Rightarrow> int list" where
  "observed [] = []"
| "observed (Snapshot d # es) = countOf d # observed es"
| "observed (ViewActive a # es) = observed es"

text \<open>A page with the memory counter and nothing shown yet.\<close>

definition blankStatus :: status_view where
  "blankStatus =
     \<lparr>memoryCount = Some [], lastMemoryCount = - 1, graphViewActive = False, goalTitle = [],
      goalTitleColor = [], subtaskList = EmptyState []\<rparr>"

section \<open>Navigation\<close>

text \<open>
  \<^verbatim>\<open>switchMainView\<close> makes the named view the only active one and, for the graph view,
  calls \<^verbatim>\<open>loadGraph()\<close>, whose parameter \<^verbatim>\<open>force\<close> then has its default \<^verbatim>\<open>false\<close>.  The
  page has the views \<^verbatim>\<open>dashboard\<close>, \<^verbatim>\<open>graph\<close> and \<^verbatim>\<open>settings\<close>; for any other name the
  lookup of the view yields \<^verbatim>\<open>null\<close> and the function raises.
\<close>

datatype nav_error = NoSuchView jsstring | GraphError js_error

definition switchMainView ::
  "jsstring \<Rightarrow> bool \<Rightarrow> graph_data option \<Rightarrow> status_view \<times> graph
     \<Rightarrow> nav_error + status_view \<times> graph" where
  "switchMainView viewId container response vg =
     (if viewId \<notin> set [js ''dashboard'', js ''graph'', js ''settings'']
      then Inl (NoSuchView viewId)
      else (let v = (fst vg)\<lparr>graphViewActive := (viewId = js ''graph'')\<rparr>
            in if viewId = js ''graph''
               then (case loadGraph container False response (snd vg) of
                       Inl err \<Rightarrow> Inl (GraphError err)
                     | Inr g \<Rightarrow> Inr (v, g))
               else Inr (v, snd vg)))"

section \<open>Properties of the bounded stream buffers\<close>

text \<open>The loop of \<^verbatim>\<open>addLog\<close> keeps the last 200 children.\<close>

lemma evictFirst_drop: "evictFirst xs = drop (length xs - 200) xs"
proof (induction xs rule: evictFirst.induct)
  case (1 xs)
  show ?case
  proof (cases "length xs > 200")
    case True
    then have "evictFirst xs = evictFirst (tl xs)" by (subst evictFirst.simps) simp
    also have "\<dots> = drop (length (tl xs) - 200) (tl xs)" using 1 True by simp
    also have "\<dots> = drop (length xs - 200) xs"
    proof (cases xs)
      case Nil
      then show ?thesis by simp
    next
      case (Cons a list)
      then have "length xs - 200 = Suc (length list - 200)" using True by simp
      then show ?thesis using Cons by simp
    qed
    finally show ?thesis .
  next
    case False
    then show ?thesis by (subst evictFirst.simps) simp
  qed
qed

lemma length_addLog: "length (addLog now t xs) \<le> 200"
proof -
  have "length (addLog now t xs) = Suc (length xs) - (Suc (length xs) - 200)"
    unfolding addLog_def evictFirst_drop by (simp only: length_drop length_append list.size)
  then show ?thesis by arith
qed

lemma addLog_full: "length xs = 200 \<Longrightarrow> addLog now t xs = tl xs @ [logLine now t]"
  by (cases xs) (simp_all add: addLog_def evictFirst_drop)

lemma addLog_room: "length xs < 200 \<Longrightarrow> addLog now t xs = xs @ [logLine now t]"
  by (simp add: addLog_def evictFirst_drop)

lemma length_addThought: "length xs \<le> 20 \<Longrightarrow> length (addThought t xs) \<le> 20"
  by (simp add: addThought_def Let_def)

lemma addThought_full: "length xs = 20 \<Longrightarrow> addThought t xs = t # butlast xs"
  by (cases xs) (simp_all add: addThought_def Let_def)

lemma addThought_room: "length xs < 20 \<Longrightarrow> addThought t xs = t # xs"
  by (simp add: addThought_def Let_def)

lemma addThought_take: "length xs \<le> 20 \<Longrightarrow> addThought t xs = take 20 (t # xs)"
proof (cases "length xs = 20")
  case True
  have "butlast (t # xs) = take (length (t # xs) - 1) (t # xs)" by (rule butlast_conv_take)
  then show ?thesis using True by (simp add: addThought_def Let_def)
next
  case False
  assume "length xs \<le> 20"
  with False show ?thesis by (simp add: addThought_def Let_def)
qed

lemma addThoughts_take:
  "length b \<le> 20 \<Longrightarrow> addThoughts ts b = take 20 (rev ts @ b)"
proof (induction ts arbitrary: b)
  case Nil
  then show ?case by simp
next
  case (Cons t ts)
  have "length (addThought t b) \<le> 20" using Cons.prems by (rule length_addThought)
  then have "addThoughts ts (addThought t b) = take 20 (rev ts @ addThought t b)"
    by (rule Cons.IH)
  also have "\<dots> = take 20 (rev ts @ take 20 (t # b))"
    using Cons.prems by (simp add: addThought_take)
  also have "\<dots> = take 20 (rev ts @ t # b)"
    by (simp add: take_Cons' min_def)
  finally show ?case by simp
qed

lemma addLog_drop: "addLog now t xs = drop (Suc (length xs) - 200) (xs @ [logLine now t])"
  unfolding addLog_def evictFirst_drop by (simp only: length_append list.size) simp

lemma drop_drop_append_200:
  fixes xs ys :: "'a list"
  shows "drop (length (drop (length xs - 200) xs @ ys) - 200) (drop (length xs - 200) xs @ ys)
       = drop (length (xs @ ys) - 200) (xs @ ys)"
proof (cases "length xs \<le> 200")
  case True
  then show ?thesis by simp
next
  case False
  then have k: "length xs - 200 \<le> length xs" and l: "length xs - (length xs - 200) = 200"
    by simp_all
  have "drop (length xs - 200) xs @ ys = drop (length xs - 200) (xs @ ys)"
    using k by simp
  moreover have "length (drop (length xs - 200) xs @ ys) - 200 + (length xs - 200)
      = length (xs @ ys) - 200"
    using False by (simp only: length_append length_drop l)
  ultimately show ?thesis by (simp only: drop_drop)
qed

lemma addLogs_drop:
  "length b \<le> 200 \<Longrightarrow> addLogs es b =
     drop (length (b @ map (\<lambda>e. logLine (fst e) (snd e)) es) - 200)
       (b @ map (\<lambda>e. logLine (fst e) (snd e)) es)"
proof (induction es arbitrary: b)
  case Nil
  then show ?case by simp
next
  case (Cons e es)
  let ?m = "map (\<lambda>e. logLine (fst e) (snd e)) es"
  let ?x = "b @ [logLine (fst e) (snd e)]"
  have "addLogs (e # es) b = addLogs es (drop (length ?x - 200) ?x)"
    by (simp only: addLogs.simps addLog_drop length_append list.size) simp
  also have "\<dots> = drop (length (drop (length ?x - 200) ?x @ ?m) - 200) (drop (length ?x - 200) ?x @ ?m)"
  proof (rule Cons.IH)
    have "length (drop (length ?x - 200) ?x) = length ?x - (length ?x - 200)"
      by (simp only: length_drop)
    then show "length (drop (length ?x - 200) ?x) \<le> 200" by arith
  qed
  also have "\<dots> = drop (length (?x @ ?m) - 200) (?x @ ?m)"
    by (rule drop_drop_append_200)
  finally show ?case by simp
qed


text \<open>
  Claim C6, as amended.  After an insertion the log console holds at most 200 lines, and
  the thought stream at most 20 entries if it held at most 20 before.  An insertion into a
  full buffer removes exactly one item, and in both buffers it is the oldest one: the first
  child of the log console, to which lines are appended, and the last child of the thought
  stream, to which entries are prepended.  Filled from empty, the console holds the last
  200 lines in the order of their arrival and the stream the last 20 thoughts, the newest
  first.
\<close>

theorem bounded_buffers_evict_oldest:
  assumes "length stream \<le> 20"
  shows "length (addLog now msg console) \<le> 200
       \<and> length (addThought thought stream) \<le> 20
       \<and> (length console = 200 \<longrightarrow> addLog now msg console = tl console @ [logLine now msg])
       \<and> (length stream = 20 \<longrightarrow> addThought thought stream = thought # butlast stream)
       \<and> addLogs es [] = drop (length es - 200) (map (\<lambda>e. logLine (fst e) (snd e)) es)
       \<and> addThoughts ts [] = take 20 (rev ts)"
proof -
  have "addLogs es [] = drop (length es - 200) (map (\<lambda>e. logLine (fst e) (snd e)) es)"
    using addLogs_drop [of "[]" es] by simp
  moreover have "addThoughts ts [] = take 20 (rev ts)"
    using addThoughts_take [of "[]" ts] by simp
  ultimately show ?thesis
    using assms length_addLog [of now msg console] length_addThought [of stream thought]
      addLog_full [of console now msg] addThought_full [of stream thought]
    by blast
qed

theorem bounded_buffers_evict_oldest_witness:
  "length (replicate 20 (js ''x'')) \<le> 20
   \<and> length (replicate 200 (js ''y'')) = 200
   \<and> length (replicate 20 (js ''x'')) = 20
   \<and> length (addLog (js ''12:00:00'') (js ''z'') (replicate 200 (js ''y''))) \<le> 200
   \<and> addLog (js ''12:00:00'') (js ''z'') (replicate 200 (js ''y''))
       = tl (replicate 200 (js ''y'')) @ [logLine (js ''12:00:00'') (js ''z'')]
   \<and> addThought (js ''new'') (replicate 20 (js ''x''))
       = js ''new'' # butlast (replicate 20 (js ''x''))"
  using bounded_buffers_evict_oldest
    [of "replicate 20 (js ''x'')" "js ''12:00:00''" "js ''z''" "replicate 200 (js ''y'')" "js ''new''"]
  by simp

text \<open>
  Claim C6 as stated has the thought stream evict its newest entry.  The thoughts
  \<open>a\<close>, ..., \<open>t\<close> arrive in this order and fill the stream; when \<open>u\<close> arrives, the
  entry that goes is \<open>a\<close>, the oldest, and \<open>t\<close>, the newest, stays.
\<close>

theorem thought_buffer_evicts_newest_counterexample:
  "addThoughts (map js [''a'', ''b'', ''c'', ''d'', ''e'', ''f'', ''g'', ''h'', ''i'', ''j'', ''k'', ''l'', ''m'', ''n'', ''o'', ''p'', ''q'', ''r'', ''s'', ''t'']) []
     = map js [''t'', ''s'', ''r'', ''q'', ''p'', ''o'', ''n'', ''m'', ''l'', ''k'', ''j'', ''i'', ''h'', ''g'', ''f'', ''e'', ''d'', ''c'', ''b'', ''a'']
   \<and> addThought (js ''u'') (map js [''t'', ''s'', ''r'', ''q'', ''p'', ''o'', ''n'', ''m'', ''l'', ''k'', ''j'', ''i'', ''h'', ''g'', ''f'', ''e'', ''d'', ''c'', ''b'', ''a''])
     = map js [''u'', ''t'', ''s'', ''r'', ''q'', ''p'', ''o'', ''n'', ''m'', ''l'', ''k'', ''j'', ''i'', ''h'', ''g'', ''f'', ''e'', ''d'', ''c'', ''b'']
   \<and> js ''t'' \<in> set (addThought (js ''u'') (map js [''t'', ''s'', ''r'', ''q'', ''p'', ''o'', ''n'', ''m'', ''l'', ''k'', ''j'', ''i'', ''h'', ''g'', ''f'', ''e'', ''d'', ''c'', ''b'', ''a'']))
   \<and> js ''a'' \<notin> set (addThought (js ''u'') (map js [''t'', ''s'', ''r'', ''q'', ''p'', ''o'', ''n'', ''m'', ''l'', ''k'', ''j'', ''i'', ''h'', ''g'', ''f'', ''e'', ''d'', ''c'', ''b'', ''a'']))"
  by (simp add: addThought_def js_def)

section \<open>Properties of the connection manager\<close>

lemma updateStatus_conn [simp]:
  "ws (updateStatus st c) = ws c"
  "sockets (updateStatus st c) = sockets c"
  "reconnectDelay (updateStatus st c) = reconnectDelay c"
  "reconnectTimer (updateStatus st c) = reconnectTimer c"
  "timers (updateStatus st c) = timers c"
  "nextTimer (updateStatus st c) = nextTimer c"
  by (simp_all add: updateStatus_def)

lemma setConnectionDot_conn [simp]:
  "ws (setConnectionDot cls c) = ws c"
  "sockets (setConnectionDot cls c) = sockets c"
  "reconnectDelay (setConnectionDot cls c) = reconnectDelay c"
  "reconnectTimer (setConnectionDot cls c) = reconnectTimer c"
  "timers (setConnectionDot cls c) = timers c"
  "nextTimer (setConnectionDot cls c) = nextTimer c"
  by (simp_all add: setConnectionDot_def split: option.splits)

lemma addMessage_conn [simp]:
  "ws (addMessage role t c) = ws c"
  "sockets (addMessage role t c) = sockets c"
  "reconnectDelay (addMessage role t c) = reconnectDelay c"
  "reconnectTimer (addMessage role t c) = reconnectTimer c"
  "timers (addMessage role t c) = timers c"
  "nextTimer (addMessage role t c) = nextTimer c"
  by (simp_all add: addMessage_def)

lemma ws_onopen_conn:
  "ws (ws_onopen now c) = ws c"
  "sockets (ws_onopen now c) = sockets c"
  "reconnectDelay (ws_onopen now c) = 1000"
  "reconnectTimer (ws_onopen now c) = reconnectTimer c"
  "timers (ws_onopen now c) = clearTimeout (reconnectTimer c) (timers c)"
  "nextTimer (ws_onopen now c) = nextTimer c"
  by (simp_all add: ws_onopen_def Let_def)

lemma ws_onclose_conn:
  "ws (ws_onclose now c) = ws c"
  "sockets (ws_onclose now c) = sockets c"
  "reconnectDelay (ws_onclose now c) = reconnectDelay c"
  "reconnectTimer (ws_onclose now c) = Some (nextTimer c)"
  "timers (ws_onclose now c) = timers c @ [(nextTimer c, reconnectDelay c)]"
  "nextTimer (ws_onclose now c) = Suc (nextTimer c)"
  by (simp_all add: ws_onclose_def Let_def)

lemma reconnect_conn:
  "ws (reconnect c) = Some (length (sockets c))"
  "sockets (reconnect c) = sockets c @ [CONNECTING]"
  "reconnectDelay (reconnect c) = min (reconnectDelay c * 2) 30000"
  "reconnectTimer (reconnect c) = reconnectTimer c"
  "timers (reconnect c) = timers c"
  "nextTimer (reconnect c) = nextTimer c"
  by (simp_all add: reconnect_def connectWebSocket_def)

lemma ws_onmessage_conn:
  "ws (ws_onmessage now frame c) = ws c"
  "sockets (ws_onmessage now frame c) = sockets c"
  "reconnectDelay (ws_onmessage now frame c) = reconnectDelay c"
  "reconnectTimer (ws_onmessage now frame c) = reconnectTimer c"
  "timers (ws_onmessage now frame c) = timers c"
  "nextTimer (ws_onmessage now frame c) = nextTimer c"
  by (simp_all add: ws_onmessage_def Let_def split: option.splits inbound.splits)

lemma sendMessage_conn:
  "ws (sendMessage now c) = ws c"
  "sockets (sendMessage now c) = sockets c"
  "reconnectDelay (sendMessage now c) = reconnectDelay c"
  "reconnectTimer (sendMessage now c) = reconnectTimer c"
  "timers (sendMessage now c) = timers c"
  "nextTimer (sendMessage now c) = nextTimer c"
  by (simp_all add: sendMessage_def Let_def split: option.splits)

lemma boot_conn:
  "ws (boot page) = Some 0"
  "sockets (boot page) = [CONNECTING]"
  "reconnectDelay (boot page) = 1000"
  "reconnectTimer (boot page) = None"
  "timers (boot page) = []"
  by (simp_all add: boot_def connectWebSocket_def)

lemma live_update_live:
  "i < length ss \<Longrightarrow> ss ! i \<noteq> CLOSED \<Longrightarrow> s \<noteq> CLOSED \<Longrightarrow> live (ss[i := s]) = live ss"
proof (induction ss arbitrary: i)
  case Nil
  then show ?case by simp
next
  case (Cons a ss)
  then show ?case by (cases i) (simp_all add: live_def)
qed

lemma live_update_closed:
  "i < length ss \<Longrightarrow> ss ! i \<noteq> CLOSED \<Longrightarrow> Suc (live (ss[i := CLOSED])) = live ss"
proof (induction ss arbitrary: i)
  case Nil
  then show ?case by simp
next
  case (Cons a ss)
  then show ?case by (cases i) (simp_all add: live_def)
qed

lemma live_append: "live (ss @ [CONNECTING]) = Suc (live ss)"
  by (simp add: live_def)

lemma length_clearTimeout: "length (clearTimeout h ts) \<le> length ts"
  by (simp add: clearTimeout_def split: option.splits)


lemma enabled_live:
  assumes "i < length ss" "ss ! i \<noteq> CLOSED"
  shows "live ss \<noteq> 0"
proof -
  have "ss ! i \<in> set ss" using assms(1) by (rule nth_mem)
  with assms(2) have "filter (\<lambda>s. s \<noteq> CLOSED) ss \<noteq> []"
    by (auto simp: filter_empty_conv)
  then show ?thesis by (simp add: live_def)
qed

text \<open>
  In every reachable state either one socket is alive and no timeout is pending, or no
  socket is alive and one timeout is pending.
\<close>

lemma handle_keeps_balance:
  assumes inv: "length (timers c) + live (sockets c) = 1" and en: "enabled e c"
  shows "length (timers (handle e c)) + live (sockets (handle e c)) = 1"
proof (cases e)
  case (SocketOpens i now)
  with en have i: "i < length (sockets c)" "sockets c ! i \<noteq> CLOSED" by simp_all
  then have "live (sockets c) \<noteq> 0"
    by (rule enabled_live)
  with inv have "length (timers c) = 0" by arith
  then have "timers c = []" by simp
  moreover have "live ((sockets c)[i := OPEN]) = live (sockets c)"
    using i by (simp add: live_update_live)
  ultimately show ?thesis
    using inv SocketOpens by (simp add: ws_onopen_conn clearTimeout_def split: option.splits)
next
  case (SocketClosing i)
  with en have i: "i < length (sockets c)" "sockets c ! i \<noteq> CLOSED" by simp_all
  then have "live ((sockets c)[i := CLOSING]) = live (sockets c)"
    by (simp add: live_update_live)
  then show ?thesis using inv SocketClosing by simp
next
  case (SocketCloses i now)
  with en have i: "i < length (sockets c)" "sockets c ! i \<noteq> CLOSED" by simp_all
  then have l: "Suc (live ((sockets c)[i := CLOSED])) = live (sockets c)"
    by (rule live_update_closed)
  with inv have "length (timers c) = 0" "live ((sockets c)[i := CLOSED]) = 0" by arith+
  then have "timers c = []" "live ((sockets c)[i := CLOSED]) = 0" by simp_all
  then show ?thesis using SocketCloses by (simp add: ws_onclose_conn)
next
  case (SocketError i)
  then show ?thesis using inv by simp
next
  case (SocketMessage i now frame)
  then show ?thesis using inv by (simp add: ws_onmessage_conn)
next
  case (TimerFires t)
  with en have "t \<in> fst ` set (timers c)" by simp
  then obtain d where d: "(t, d) \<in> set (timers c)" by auto
  then have "timers c \<noteq> []" by auto
  then have "length (timers c) \<noteq> 0" by simp
  with inv have len: "length (timers c) = 1" and l: "live (sockets c) = 0" by arith+
  from len obtain p where "timers c = [p]" by (cases "timers c") simp_all
  with d have "timers c = [(t, d)]" by simp
  then show ?thesis using TimerFires l by (simp add: reconnect_conn live_append)
next
  case (UserTypes x)
  then show ?thesis using inv by simp
next
  case (UserSends now)
  then show ?thesis using inv by (simp add: sendMessage_conn)
qed

lemma reachable_balance:
  "reachable c \<Longrightarrow> length (timers c) + live (sockets c) = 1"
proof (induction rule: reachable.induct)
  case (reachable_boot page)
  show ?case by (simp add: boot_conn live_def)
next
  case (reachable_step c e)
  then show ?case by (simp add: handle_keeps_balance)
qed

lemma handle_keeps_ws:
  "ws c \<noteq> None \<Longrightarrow> ws (handle e c) \<noteq> None"
  by (cases e)
    (simp_all add: ws_onopen_conn ws_onclose_conn ws_onmessage_conn sendMessage_conn
      reconnect_conn)

lemma handle_keeps_delay:
  "1000 \<le> reconnectDelay c \<and> reconnectDelay c \<le> 30000 \<Longrightarrow>
   1000 \<le> reconnectDelay (handle e c) \<and> reconnectDelay (handle e c) \<le> 30000"
  by (cases e)
    (simp_all add: ws_onopen_conn ws_onclose_conn ws_onmessage_conn sendMessage_conn
      reconnect_conn)

lemma reachable_ws: "reachable c \<Longrightarrow> ws c \<noteq> None"
  by (induction rule: reachable.induct) (simp_all add: boot_conn handle_keeps_ws)

lemma reachable_delay:
  "reachable c \<Longrightarrow> 1000 \<le> reconnectDelay c \<and> reconnectDelay c \<le> 30000"
proof (induction rule: reachable.induct)
  case (reachable_boot page)
  show ?case by (simp add: boot_conn)
next
  case (reachable_step c e)
  then show ?case using handle_keeps_delay [of c e] by simp
qed



lemma live_zero_closed: "live ss = 0 \<Longrightarrow> i < length ss \<Longrightarrow> ss ! i = CLOSED"
  using enabled_live [of i ss] by blast

lemma handle_keeps_current:
  assumes bal: "length (timers c) + live (sockets c) = 1" and cur: "current c"
    and en: "enabled e c"
  shows "current (handle e c)"
proof -
  from cur obtain j where j: "ws c = Some j" "j < length (sockets c)"
    "\<forall>k < length (sockets c). k \<noteq> j \<longrightarrow> sockets c ! k = CLOSED"
    unfolding current_def by blast
  show ?thesis
  proof (cases e)
    case (SocketOpens i now)
    with en j have "i = j" by auto
    then show ?thesis using SocketOpens j
      by (auto simp: current_def ws_onopen_conn)
  next
    case (SocketClosing i)
    with en j have "i = j" by auto
    then show ?thesis using SocketClosing j by (auto simp: current_def)
  next
    case (SocketCloses i now)
    with en have "i < length (sockets c)" by simp
    then show ?thesis using SocketCloses j
      by (auto simp: current_def ws_onclose_conn nth_list_update)
  next
    case (SocketError i)
    then show ?thesis using cur by simp
  next
    case (SocketMessage i now frame)
    then show ?thesis using cur by (simp add: current_def ws_onmessage_conn)
  next
    case (TimerFires t)
    with en have "timers c \<noteq> []" by auto
    then have "length (timers c) \<noteq> 0" by simp
    with bal have "live (sockets c) = 0" by arith
    then have "\<forall>k < length (sockets c). sockets c ! k = CLOSED"
      using live_zero_closed by blast
    then show ?thesis using TimerFires
      by (auto simp: current_def reconnect_conn nth_append)
  next
    case (UserTypes x)
    then show ?thesis using cur by (simp add: current_def)
  next
    case (UserSends now)
    then show ?thesis using cur by (simp add: current_def sendMessage_conn)
  qed
qed

lemma reachable_current: "reachable c \<Longrightarrow> current c"
proof (induction rule: reachable.induct)
  case (reachable_boot page)
  show ?case by (simp add: current_def boot_conn)
next
  case (reachable_step c e)
  then show ?case using handle_keeps_current reachable_balance by blast
qed

lemma failure_round:
  assumes "ws c = Some i" "i < length (sockets c)" "sockets c ! i \<noteq> CLOSED" "timers c = []"
  shows "failureDelays (now # nows) c =
           reconnectDelay c #
           failureDelays nows
             (handle (TimerFires (nextTimer c)) (handle (SocketCloses i now) c))"
  using assms by (simp add: Let_def ws_onclose_conn)

lemma after_failure_round:
  assumes "ws c = Some i" "i < length (sockets c)" "timers c = []"
  shows "ws (handle (TimerFires (nextTimer c)) (handle (SocketCloses i now) c))
           = Some (length (sockets c))"
    and "length (sockets c)
           < length (sockets (handle (TimerFires (nextTimer c)) (handle (SocketCloses i now) c)))"
    and "sockets (handle (TimerFires (nextTimer c)) (handle (SocketCloses i now) c))
           ! length (sockets c) \<noteq> CLOSED"
    and "timers (handle (TimerFires (nextTimer c)) (handle (SocketCloses i now) c)) = []"
    and "reconnectDelay (handle (TimerFires (nextTimer c)) (handle (SocketCloses i now) c))
           = min (reconnectDelay c * 2) 30000"
  using assms by (simp_all add: reconnect_conn ws_onclose_conn nth_append)

lemma capped_double:
  assumes "1 \<le> (p::nat)"
  shows "min (min (d * 2) 30000 * p) 30000 = min (d * (2 * p)) 30000"
proof (cases "d * 2 \<le> 30000")
  case True
  then have "min (d * 2) 30000 = d * 2" by (rule min_absorb1)
  then show ?thesis by (simp only: mult.assoc)
next
  case False
  then have m: "min (d * 2) 30000 = 30000" by simp
  have "30000 * 1 \<le> 30000 * p" using assms by (rule mult_le_mono2)
  then have l: "min (30000 * p) 30000 = 30000" by simp
  have "d * 2 \<le> d * 2 * p" using assms by (cases p) simp_all
  moreover have "30000 < d * 2" using False by simp
  ultimately have "30000 < d * 2 * p" by (rule less_le_trans [rotated])
  then have "30000 \<le> d * (2 * p)" by (simp only: mult.assoc less_imp_le)
  then have "min (d * (2 * p)) 30000 = 30000" by (rule min_absorb2)
  with m l show ?thesis by simp
qed

lemma failureDelays_doubling:
  "ws c = Some i \<Longrightarrow> i < length (sockets c) \<Longrightarrow> sockets c ! i \<noteq> CLOSED \<Longrightarrow> timers c = [] \<Longrightarrow>
   reconnectDelay c \<le> 30000 \<Longrightarrow>
   failureDelays nows c = map (\<lambda>k. min (reconnectDelay c * 2 ^ k) 30000) [0..<length nows]"
proof (induction nows arbitrary: c i)
  case Nil
  show ?case by simp
next
  case (Cons now nows)
  let ?c2 = "handle (TimerFires (nextTimer c)) (handle (SocketCloses i now) c)"
  let ?d = "reconnectDelay c"
  note nxt = after_failure_round [OF Cons.prems(1,2,4), of now]
  have "failureDelays (now # nows) c = ?d # failureDelays nows ?c2"
    using Cons.prems(1-4) by (rule failure_round)
  also have "failureDelays nows ?c2 =
      map (\<lambda>k. min (reconnectDelay ?c2 * 2 ^ k) 30000) [0..<length nows]"
  proof -
    have "reconnectDelay ?c2 \<le> 30000" by (simp only: nxt(5) min.cobounded2)
    with nxt(1-4) show ?thesis by (rule Cons.IH)
  qed
  also have "\<dots> = map (\<lambda>k. min (min (?d * 2) 30000 * 2 ^ k) 30000) [0..<length nows]"
    by (simp only: nxt(5))
  also have "\<dots> = map (\<lambda>k. min (?d * 2 ^ Suc k) 30000) [0..<length nows]"
  proof (rule map_cong [OF refl])
    fix k
    have "(1::nat) \<le> 2 ^ k" by simp
    then have "min (min (?d * 2) 30000 * 2 ^ k) 30000 = min (?d * (2 * 2 ^ k)) 30000"
      by (rule capped_double)
    then show "min (min (?d * 2) 30000 * 2 ^ k) 30000 = min (?d * 2 ^ Suc k) 30000"
      by (simp only: power_Suc)
  qed
  finally have "failureDelays (now # nows) c =
      ?d # map (\<lambda>k. min (?d * 2 ^ Suc k) 30000) [0..<length nows]" .
  moreover have "map (\<lambda>k. min (?d * 2 ^ k) 30000) [0..<Suc (length nows)] =
      min (?d * 2 ^ 0) 30000 # map (\<lambda>k. min (?d * 2 ^ Suc k) 30000) [0..<length nows]"
    by (rule map_upt_Suc)
  moreover have "min (?d * 2 ^ 0) 30000 = ?d" using Cons.prems(5) by simp
  moreover have "length (now # nows) = Suc (length nows)" by simp
  ultimately show ?case by (simp only:)
qed


lemma current_live:
  assumes "current c" "timers c = []" "length (timers c) + live (sockets c) = 1"
  shows "\<exists>j. ws c = Some j \<and> j < length (sockets c) \<and> sockets c ! j \<noteq> CLOSED"
proof -
  from assms(1) obtain j where j: "ws c = Some j" "j < length (sockets c)"
    "\<forall>k < length (sockets c). k \<noteq> j \<longrightarrow> sockets c ! k = CLOSED"
    unfolding current_def by blast
  have "sockets c ! j \<noteq> CLOSED"
  proof
    assume "sockets c ! j = CLOSED"
    with j(3) have "\<forall>k < length (sockets c). sockets c ! k = CLOSED" by metis
    then have "\<forall>s \<in> set (sockets c). s = CLOSED" by (auto simp: in_set_conv_nth)
    then have "live (sockets c) = 0" by (simp add: live_def filter_empty_conv)
    with assms(2,3) show False by simp
  qed
  with j show ?thesis by blast
qed

lemma reachable_failureDelays:
  assumes "reachable c" "timers c = []"
  shows "failureDelays nows c =
           map (\<lambda>k. min (reconnectDelay c * 2 ^ k) 30000) [0..<length nows]"
proof -
  from assms obtain j where "ws c = Some j" "j < length (sockets c)" "sockets c ! j \<noteq> CLOSED"
    using current_live reachable_current reachable_balance by blast
  moreover have "reconnectDelay c \<le> 30000" using assms(1) reachable_delay by blast
  ultimately show ?thesis using assms(2) by (simp add: failureDelays_doubling)
qed

lemma opened_no_timer:
  assumes "reachable c" "enabled (SocketOpens i now) c"
  shows "timers (handle (SocketOpens i now) c) = []"
proof -
  from assms(2) have "i < length (sockets c)" "sockets c ! i \<noteq> CLOSED" by simp_all
  then have "live (sockets c) \<noteq> 0" by (rule enabled_live)
  moreover have "length (timers c) + live (sockets c) = 1"
    using assms(1) by (rule reachable_balance)
  ultimately have "length (timers c) = 0" by arith
  then show ?thesis by (simp add: ws_onopen_conn clearTimeout_def split: option.splits)
qed

text \<open>
  Claim C4.  The delay is 1000 ms when the script starts and again after every
  \<^verbatim>\<open>onopen\<close>.  In a run of consecutive failures from a state with no reconnection
  pending, the \<open>k\<close>-th failure (counted from 0) waits \<open>min (d * 2 ^ k) 30000\<close> ms, where \<open>d\<close> is
  the delay at the start of the run: it doubles at each failure and is capped at 30000.
  Four failures after the start, or after a socket has opened, wait 1000, 2000, 4000 and
  8000 ms.
\<close>

theorem reconnection_backoff:
  "reconnectDelay (boot page) = 1000
   \<and> reconnectDelay (handle (SocketOpens i now) c) = 1000
   \<and> failureDelays [n1, n2, n3, n4] (boot page) = [1000, 2000, 4000, 8000]
   \<and> (reachable c \<and> enabled (SocketOpens i now) c \<longrightarrow>
        failureDelays [n1, n2, n3, n4] (handle (SocketOpens i now) c) = [1000, 2000, 4000, 8000])
   \<and> (reachable c \<and> timers c = [] \<longrightarrow>
        failureDelays nows c
          = map (\<lambda>k. min (reconnectDelay c * 2 ^ k) 30000) [0..<length nows])
   \<and> (reachable c \<longrightarrow> reconnectDelay c \<le> 30000)"
proof -
  have four: "failureDelays [n1, n2, n3, n4] s = [1000, 2000, 4000, 8000]"
    if "reachable s" "timers s = []" "reconnectDelay s = 1000" for s
    using reachable_failureDelays [OF that(1,2), of "[n1, n2, n3, n4]"] that(3) by simp
  have a: "reconnectDelay (boot page) = 1000" by (simp add: boot_conn)
  have b: "reconnectDelay (handle (SocketOpens i now) c) = 1000" by (simp add: ws_onopen_conn)
  have c: "failureDelays [n1, n2, n3, n4] (boot page) = [1000, 2000, 4000, 8000]"
  proof (rule four)
    show "reachable (boot page)" by (rule reachable_boot)
    show "timers (boot page) = []" by (simp add: boot_conn)
    show "reconnectDelay (boot page) = 1000" by (rule a)
  qed
  have d: "failureDelays [n1, n2, n3, n4] (handle (SocketOpens i now) c)
             = [1000, 2000, 4000, 8000]"
    if "reachable c" "enabled (SocketOpens i now) c"
  proof (rule four)
    show "reachable (handle (SocketOpens i now) c)" using that by (rule reachable_step)
    show "timers (handle (SocketOpens i now) c) = []" using that by (rule opened_no_timer)
    show "reconnectDelay (handle (SocketOpens i now) c) = 1000" by (rule b)
  qed
  show ?thesis using a b c d reachable_failureDelays reachable_delay by blast
qed

theorem reconnection_backoff_witness:
  "reachable (boot blankPage)
   \<and> enabled (SocketOpens 0 (js ''12:00:00'')) (boot blankPage)
   \<and> timers (boot blankPage) = []
   \<and> failureDelays [[], [], [], []] (handle (SocketOpens 0 (js ''12:00:00'')) (boot blankPage))
       = [1000, 2000, 4000, 8000]
   \<and> failureDelays [[], [], [], [], [], [], []] (boot blankPage)
       = [1000, 2000, 4000, 8000, 16000, 30000, 30000]
   \<and> reconnectDelay (boot blankPage) \<le> 30000"
proof -
  have r: "reachable (boot blankPage)" by (rule reachable_boot)
  have e: "enabled (SocketOpens 0 (js ''12:00:00'')) (boot blankPage)" by (simp add: boot_conn)
  have t: "timers (boot blankPage) = []" by (simp add: boot_conn)
  have d: "reconnectDelay (boot blankPage) = 1000" by (simp add: boot_conn)
  show ?thesis
    using r e t d
      reconnection_backoff [of blankPage 0 "js ''12:00:00''" "boot blankPage" "[]" "[]" "[]" "[]"
        "[[], [], [], [], [], [], []]"]
    by simp
qed

text \<open>
  \<^verbatim>\<open>onclose\<close> itself cancels nothing: run in a state that already had a timeout pending,
  which no run of the script reaches, it would leave two.
\<close>

lemma onclose_does_not_cancel:
  "timers (ws_onclose now (c\<lparr>timers := [(t, d)]\<rparr>)) = [(t, d), (nextTimer c, reconnectDelay c)]"
  by (simp add: ws_onclose_conn)





section \<open>Properties of the status change detector\<close>

lemma fetchStatus_detect:
  "snd (fetchStatus d v) = snd (detectChange d v)"
  "lastMemoryCount (fst (fetchStatus d v)) = lastMemoryCount (fst (detectChange d v))"
  by (simp_all add: fetchStatus_def showNoGoal_def showGoal_def
      split: prod.splits option.splits)

lemma detectChange_forced:
  "memoryCount v \<noteq> None \<Longrightarrow>
   snd (detectChange d v) =
     (countOf d > lastMemoryCount v \<and> lastMemoryCount v \<noteq> - 1 \<and> graphViewActive v)"
  unfolding detectChange_def Let_def by (cases "memoryCount v") simp_all

lemma detectChange_absent: "memoryCount v = None \<Longrightarrow> detectChange d v = (v, False)"
  by (simp add: detectChange_def)

lemma detectChange_last:
  "memoryCount v \<noteq> None \<Longrightarrow>
   lastMemoryCount (fst (detectChange d v)) = max (lastMemoryCount v) (countOf d)"
  unfolding detectChange_def Let_def by (cases "memoryCount v") simp_all

text \<open>
  One step of the detector, in terms of the variable \<^verbatim>\<open>lastMemoryCount\<close>: when the page has
  the memory counter, \<^verbatim>\<open>loadGraph(true)\<close> is called exactly when the count of the snapshot
  is greater than \<^verbatim>\<open>lastMemoryCount\<close>, \<^verbatim>\<open>lastMemoryCount\<close> is not -1 and the graph view is
  active.
\<close>

lemma detector_step:
  assumes "memoryCount v \<noteq> None"
  shows "(snd (fetchStatus d v) \<longleftrightarrow>
            countOf d > lastMemoryCount v \<and> lastMemoryCount v \<noteq> - 1 \<and> graphViewActive v)
       \<and> (lastMemoryCount v = - 1 \<longrightarrow> \<not> snd (fetchStatus d v))
       \<and> \<not> snd (fetchStatus d (statusAtStart page))
       \<and> (0 \<le> countOf d \<longrightarrow> lastMemoryCount (fst (fetchStatus d v)) \<noteq> - 1)"
proof -
  have "\<not> snd (fetchStatus d (statusAtStart page))"
  proof (cases "memoryCount (statusAtStart page)")
    case None
    then show ?thesis by (simp add: fetchStatus_detect detectChange_absent)
  next
    case (Some t)
    then show ?thesis by (simp add: fetchStatus_detect detectChange_forced statusAtStart_def)
  qed
  moreover have "0 \<le> countOf d \<longrightarrow> lastMemoryCount (fst (fetchStatus d v)) \<noteq> - 1"
  proof
    assume "0 \<le> countOf d"
    moreover have "lastMemoryCount (fst (fetchStatus d v)) = max (lastMemoryCount v) (countOf d)"
      using assms by (simp add: fetchStatus_detect detectChange_last)
    ultimately show "lastMemoryCount (fst (fetchStatus d v)) \<noteq> - 1" by arith
  qed
  ultimately show ?thesis using assms by (simp add: fetchStatus_detect detectChange_forced)
qed

lemma foldl_max_Max: "foldl max (a::int) xs = Max (insert a (set xs))"
proof (induction xs arbitrary: a)
  case Nil
  show ?case by simp
next
  case (Cons x xs)
  have "foldl max a (x # xs) = Max (insert (max a x) (set xs))" by (simp add: Cons.IH)
  also have "\<dots> = Max (insert a (insert x (set xs)))"
  proof (cases "set xs = {}")
    case True
    then show ?thesis by (simp add: max.commute)
  next
    case False
    then show ?thesis by (simp add: max.assoc)
  qed
  finally show ?case by simp
qed

lemma fetchStatus_keeps:
  "memoryCount v \<noteq> None \<Longrightarrow> memoryCount (fst (fetchStatus d v)) \<noteq> None"
  "graphViewActive (fst (fetchStatus d v)) = graphViewActive v"
  unfolding fetchStatus_def detectChange_def Let_def
  by (auto simp: showNoGoal_def showGoal_def split: option.splits prod.splits if_splits)

lemma statusRun_last:
  "memoryCount v \<noteq> None \<Longrightarrow>
   lastMemoryCount (statusRun es v) = foldl max (lastMemoryCount v) (observed es)
   \<and> memoryCount (statusRun es v) \<noteq> None"
proof (induction es v rule: statusRun.induct)
  case (1 v)
  then show ?case by simp
next
  case (2 d es v)
  have "memoryCount (fst (fetchStatus d v)) \<noteq> None" using "2.prems" by (rule fetchStatus_keeps)
  moreover have "lastMemoryCount (fst (fetchStatus d v)) = max (lastMemoryCount v) (countOf d)"
    using "2.prems" by (simp add: fetchStatus_detect detectChange_last)
  ultimately show ?case using "2.IH" by simp
next
  case (3 a es v)
  then show ?case by simp
qed


lemma statusRun_active_last:
  "graphViewActive (statusRun (es @ [ViewActive a]) v) = a"
  "graphViewActive (statusRun (es @ [Snapshot d]) v) = graphViewActive (statusRun es v)"
  by (induction es v rule: statusRun.induct) (simp_all add: fetchStatus_keeps)

lemma start_last:
  assumes "memoryCount page \<noteq> None"
  shows "lastMemoryCount (statusRun es (statusAtStart page)) = Max (insert (- 1) (set (observed es)))"
    and "memoryCount (statusRun es (statusAtStart page)) \<noteq> None"
proof -
  have "memoryCount (statusAtStart page) \<noteq> None" using assms by (simp add: statusAtStart_def)
  then have "lastMemoryCount (statusRun es (statusAtStart page))
        = foldl max (lastMemoryCount (statusAtStart page)) (observed es)
      \<and> memoryCount (statusRun es (statusAtStart page)) \<noteq> None"
    by (rule statusRun_last)
  then show "lastMemoryCount (statusRun es (statusAtStart page)) = Max (insert (- 1) (set (observed es)))"
    and "memoryCount (statusRun es (statusAtStart page)) \<noteq> None"
    by (simp_all add: foldl_max_Max statusAtStart_def)
qed

lemma above_all_observed:
  assumes "\<forall>n \<in> set xs. (0::int) \<le> n"
  shows "(x > Max (insert (- 1) (set xs)) \<and> Max (insert (- 1) (set xs)) \<noteq> - 1)
       \<longleftrightarrow> (xs \<noteq> [] \<and> (\<forall>n \<in> set xs. n < x))"
proof (cases xs)
  case Nil
  then show ?thesis by simp
next
  case (Cons y ys)
  have fin: "finite (insert (- 1) (set xs))" "insert (- 1) (set xs) \<noteq> {}" by simp_all
  have y: "y \<in> set xs" "0 \<le> y" using Cons assms by simp_all
  then have "y \<le> Max (insert (- 1) (set xs))" by (intro Max_ge) simp_all
  with y have ne: "Max (insert (- 1) (set xs)) \<noteq> - 1" by arith
  have "(Max (insert (- 1) (set xs)) < x) \<longleftrightarrow> (\<forall>n \<in> insert (- 1) (set xs). n < x)"
    using fin by (rule Max_less_iff)
  also have "\<dots> \<longleftrightarrow> (\<forall>n \<in> set xs. n < x)"
    using y by auto
  finally have lt: "(Max (insert (- 1) (set xs)) < x) \<longleftrightarrow> (\<forall>n \<in> set xs. n < x)" .
  from Cons have "xs \<noteq> []" by simp
  with lt ne show ?thesis by blast
qed

text \<open>
  Claim C2, as amended.  \<^verbatim>\<open>lastMemoryCount\<close> holds the largest count of all snapshots
  processed since the start, and -1 before the first; it is not the count of the
  snapshot before.  When the page has the memory counter, \<^verbatim>\<open>fetchStatus\<close> calls
  \<^verbatim>\<open>loadGraph(true)\<close> exactly when the count of the snapshot is greater than that largest
  count, the largest count is not -1 and the graph view is active.  For counts of at least
  0 this is: a snapshot has been processed before, the new count is greater than every
  count processed before, and the graph view is active.  The first snapshot never
  triggers the call.
\<close>

theorem forced_pass_on_new_maximum:
  assumes "memoryCount page \<noteq> None"
  shows "lastMemoryCount (statusRun es (statusAtStart page)) = Max (insert (- 1) (set (observed es)))
       \<and> (snd (fetchStatus d (statusRun es (statusAtStart page))) \<longleftrightarrow>
            countOf d > Max (insert (- 1) (set (observed es)))
            \<and> Max (insert (- 1) (set (observed es))) \<noteq> - 1
            \<and> graphViewActive (statusRun es (statusAtStart page)))
       \<and> ((\<forall>n \<in> set (observed es). 0 \<le> n) \<longrightarrow>
            (snd (fetchStatus d (statusRun es (statusAtStart page))) \<longleftrightarrow>
               observed es \<noteq> [] \<and> (\<forall>n \<in> set (observed es). n < countOf d)
               \<and> graphViewActive (statusRun es (statusAtStart page))))
       \<and> \<not> snd (fetchStatus d (statusAtStart page))"
proof -
  let ?v = "statusRun es (statusAtStart page)"
  let ?m = "Max (insert (- 1) (set (observed es)))"
  have last: "lastMemoryCount ?v = ?m" and el: "memoryCount ?v \<noteq> None"
    using assms by (rule start_last)+
  have step: "snd (fetchStatus d ?v) \<longleftrightarrow> countOf d > ?m \<and> ?m \<noteq> - 1 \<and> graphViewActive ?v"
    using el by (simp add: fetchStatus_detect detectChange_forced last)
  have nonneg: "snd (fetchStatus d ?v) \<longleftrightarrow>
      observed es \<noteq> [] \<and> (\<forall>n \<in> set (observed es). n < countOf d) \<and> graphViewActive ?v"
    if "\<forall>n \<in> set (observed es). 0 \<le> n"
    using step above_all_observed [OF that, of "countOf d"] by blast
  have first: "\<not> snd (fetchStatus d (statusAtStart page))"
    using assms by (simp add: fetchStatus_detect detectChange_forced statusAtStart_def)
  show ?thesis using last step nonneg first by blast
qed

theorem forced_pass_on_new_maximum_witness:
  "memoryCount blankStatus \<noteq> None
   \<and> observed [Snapshot \<lparr>memory_count = Some 5, data_goal = None\<rparr>,
                 Snapshot \<lparr>memory_count = Some 3, data_goal = None\<rparr>,
                 ViewActive True] = [5, 3]
   \<and> lastMemoryCount (statusRun [Snapshot \<lparr>memory_count = Some 5, data_goal = None\<rparr>,
                                  Snapshot \<lparr>memory_count = Some 3, data_goal = None\<rparr>,
                                  ViewActive True] (statusAtStart blankStatus)) = 5
   \<and> snd (fetchStatus \<lparr>memory_count = Some 6, data_goal = None\<rparr>
           (statusRun [Snapshot \<lparr>memory_count = Some 5, data_goal = None\<rparr>,
                       Snapshot \<lparr>memory_count = Some 3, data_goal = None\<rparr>,
                       ViewActive True] (statusAtStart blankStatus)))
   \<and> \<not> snd (fetchStatus \<lparr>memory_count = Some 5, data_goal = None\<rparr>
           (statusRun [Snapshot \<lparr>memory_count = Some 5, data_goal = None\<rparr>,
                       Snapshot \<lparr>memory_count = Some 3, data_goal = None\<rparr>,
                       ViewActive True] (statusAtStart blankStatus)))"
proof -
  let ?es = "[Snapshot \<lparr>memory_count = Some 5, data_goal = None\<rparr>,
              Snapshot \<lparr>memory_count = Some 3, data_goal = None\<rparr>, ViewActive True]"
  have el: "memoryCount blankStatus \<noteq> None" by (simp add: blankStatus_def)
  have ob: "observed ?es = [5, 3]" by (simp add: countOf_def)
  have act: "graphViewActive (statusRun ?es (statusAtStart blankStatus))"
    using statusRun_active_last(1)
      [of "[Snapshot \<lparr>memory_count = Some 5, data_goal = None\<rparr>,
            Snapshot \<lparr>memory_count = Some 3, data_goal = None\<rparr>]" True "statusAtStart blankStatus"]
    by simp
  show ?thesis
    using el act ob
      forced_pass_on_new_maximum [OF el, of ?es "\<lparr>memory_count = Some 6, data_goal = None\<rparr>"]
      forced_pass_on_new_maximum [OF el, of ?es "\<lparr>memory_count = Some 5, data_goal = None\<rparr>"]
    by (simp add: countOf_def)
qed

text \<open>
  Claim C2 as stated compares with the last observed value.  With the graph view active,
  the snapshots 5 and 3 are processed and a snapshot with the count 4 follows: 4 is greater
  than the 3 observed last and \<^verbatim>\<open>lastMemoryCount\<close> is not -1, yet \<^verbatim>\<open>loadGraph(true)\<close> is not
  called, because \<^verbatim>\<open>lastMemoryCount\<close> is still 5.
\<close>

theorem forced_pass_after_drop_counterexample:
  "graphViewActive
     (statusRun [ViewActive True, Snapshot \<lparr>memory_count = Some 5, data_goal = None\<rparr>,
                 Snapshot \<lparr>memory_count = Some 3, data_goal = None\<rparr>] (statusAtStart blankStatus))
   \<and> lastMemoryCount
     (statusRun [ViewActive True, Snapshot \<lparr>memory_count = Some 5, data_goal = None\<rparr>,
                 Snapshot \<lparr>memory_count = Some 3, data_goal = None\<rparr>] (statusAtStart blankStatus)) = 5
   \<and> countOf \<lparr>memory_count = Some 3, data_goal = None\<rparr>
       < countOf \<lparr>memory_count = Some 4, data_goal = None\<rparr>
   \<and> \<not> snd (fetchStatus \<lparr>memory_count = Some 4, data_goal = None\<rparr>
           (statusRun [ViewActive True, Snapshot \<lparr>memory_count = Some 5, data_goal = None\<rparr>,
                       Snapshot \<lparr>memory_count = Some 3, data_goal = None\<rparr>]
              (statusAtStart blankStatus)))"
proof -
  let ?es = "[ViewActive True, Snapshot \<lparr>memory_count = Some 5, data_goal = None\<rparr>,
              Snapshot \<lparr>memory_count = Some 3, data_goal = None\<rparr>]"
  let ?v = "statusRun ?es (statusAtStart blankStatus)"
  have el: "memoryCount blankStatus \<noteq> None" by (simp add: blankStatus_def)
  have ob: "observed ?es = [5, 3]" by (simp add: countOf_def)
  have "lastMemoryCount ?v = Max (insert (- 1) (set (observed ?es)))"
    using el by (rule start_last(1))
  also have "\<dots> = 5" by (simp add: countOf_def)
  finally have last: "lastMemoryCount ?v = 5" .
  have el': "memoryCount ?v \<noteq> None" using el by (rule start_last(2))
  have act: "graphViewActive ?v" by (simp add: fetchStatus_keeps)
  have step: "\<not> snd (fetchStatus \<lparr>memory_count = Some 4, data_goal = None\<rparr> v)"
    if "memoryCount v \<noteq> None" "lastMemoryCount v = 5" for v
    using that by (simp add: fetchStatus_detect detectChange_forced countOf_def)
  from el' last have "\<not> snd (fetchStatus \<lparr>memory_count = Some 4, data_goal = None\<rparr> ?v)"
    by (rule step)
  moreover have "countOf \<lparr>memory_count = Some 3, data_goal = None\<rparr>
      < countOf \<lparr>memory_count = Some 4, data_goal = None\<rparr>"
    by (simp add: countOf_def)
  ultimately show ?thesis using act last by blast
qed

text \<open>
  Claim C3, as amended.  When the detector runs, \<^verbatim>\<open>lastMemoryCount\<close> afterwards is the
  larger of its value before and the count of the snapshot: it takes the count of the
  snapshot when that is greater, which includes the first snapshot with its sentinel -1,
  and keeps its value when the count is equal or lower.
\<close>

theorem lastMemoryCount_running_maximum:
  assumes "memoryCount v \<noteq> None"
  shows "lastMemoryCount (fst (fetchStatus d v)) = max (lastMemoryCount v) (countOf d)
       \<and> (lastMemoryCount v \<le> countOf d \<longrightarrow>
            lastMemoryCount (fst (fetchStatus d v)) = countOf d)
       \<and> (countOf d < lastMemoryCount v \<longrightarrow>
            lastMemoryCount (fst (fetchStatus d v)) = lastMemoryCount v)"
  using assms by (simp add: fetchStatus_detect detectChange_last)

theorem lastMemoryCount_running_maximum_witness:
  "memoryCount \<lparr>memoryCount = Some [], lastMemoryCount = - 1, graphViewActive = False,
      goalTitle = [], goalTitleColor = [], subtaskList = Subtasks []\<rparr> \<noteq> None
   \<and> lastMemoryCount (fst (fetchStatus \<lparr>memory_count = Some 7, data_goal = None\<rparr>
        \<lparr>memoryCount = Some [], lastMemoryCount = - 1, graphViewActive = False,
         goalTitle = [], goalTitleColor = [], subtaskList = Subtasks []\<rparr>)) = 7
   \<and> lastMemoryCount (fst (fetchStatus \<lparr>memory_count = Some 7, data_goal = None\<rparr>
        \<lparr>memoryCount = Some [], lastMemoryCount = 9, graphViewActive = False,
         goalTitle = [], goalTitleColor = [], subtaskList = Subtasks []\<rparr>)) = 9"
  using lastMemoryCount_running_maximum
      [of "\<lparr>memoryCount = Some [], lastMemoryCount = - 1, graphViewActive = False,
            goalTitle = [], goalTitleColor = [], subtaskList = Subtasks []\<rparr>"
          "\<lparr>memory_count = Some 7, data_goal = None\<rparr>"]
    lastMemoryCount_running_maximum
      [of "\<lparr>memoryCount = Some [], lastMemoryCount = 9, graphViewActive = False,
            goalTitle = [], goalTitleColor = [], subtaskList = Subtasks []\<rparr>"
          "\<lparr>memory_count = Some 7, data_goal = None\<rparr>"]
  by (simp add: countOf_def)

text \<open>
  Claim C3 as stated has \<^verbatim>\<open>lastMemoryCount\<close> equal the count of every processed snapshot.
  With \<^verbatim>\<open>lastMemoryCount\<close> at 5, a snapshot whose count is 3 leaves it at 5.
\<close>

theorem lastMemoryCount_lower_count_counterexample:
  "countOf \<lparr>memory_count = Some 3, data_goal = None\<rparr> = 3
   \<and> lastMemoryCount (fst (fetchStatus \<lparr>memory_count = Some 3, data_goal = None\<rparr>
        \<lparr>memoryCount = Some (js ''5''), lastMemoryCount = 5, graphViewActive = True,
         goalTitle = [], goalTitleColor = [], subtaskList = Subtasks []\<rparr>)) = 5"
  unfolding fetchStatus_def detectChange_def Let_def
  by (simp add: countOf_def showNoGoal_def)

text \<open>
  Claim C10.  A snapshot whose goal has the title \<^verbatim>\<open>Idle\<close> leaves the page exactly as the
  same snapshot without a goal does: the title reads \<^verbatim>\<open>No active goal\<close> and the subtask list
  holds the placeholder \<^verbatim>\<open>System Idle\<close>, whatever subtasks the goal carries.
\<close>

theorem idle_goal_rendered_as_no_goal:
  "fetchStatus (d\<lparr>data_goal := Some \<lparr>goal_goal = Some (js ''Idle''), goal_subtasks = tasks\<rparr>\<rparr>) v
     = fetchStatus (d\<lparr>data_goal := None\<rparr>) v
   \<and> goalTitle (fst (fetchStatus
        (d\<lparr>data_goal := Some \<lparr>goal_goal = Some (js ''Idle''), goal_subtasks = tasks\<rparr>\<rparr>) v))
     = js ''No active goal''
   \<and> subtaskList (fst (fetchStatus
        (d\<lparr>data_goal := Some \<lparr>goal_goal = Some (js ''Idle''), goal_subtasks = tasks\<rparr>\<rparr>) v))
     = EmptyState (js ''System Idle'')"
  by (simp add: fetchStatus_def detectChange_def countOf_def showNoGoal_def
      split: prod.splits option.splits)

section \<open>Properties of the graph synchronizer\<close>

lemma dataset_add_fresh:
  "distinct (map node_id ns) \<Longrightarrow> set (map node_id ns) \<inter> set (map node_id ds) = {} \<Longrightarrow>
   dataset_add ds ns = Inr (ds @ ns)"
proof (induction ns arbitrary: ds)
  case Nil
  show ?case by simp
next
  case (Cons n ns)
  from Cons.prems have fresh: "node_id n \<notin> set (map node_id ds)" by auto
  from Cons.prems have "distinct (map node_id ns)"
    and "set (map node_id ns) \<inter> set (map node_id (ds @ [n])) = {}" by auto
  then have "dataset_add (ds @ [n]) ns = Inr ((ds @ [n]) @ ns)" by (rule Cons.IH)
  with fresh show ?case by simp
qed

lemma dataset_add_newNodes:
  assumes "distinct (map node_id fetched)"
  shows "dataset_add (nodes g) (newNodes g fetched) = Inr (nodes g @ newNodes g fetched)"
proof (rule dataset_add_fresh)
  show "distinct (map node_id (newNodes g fetched))"
    using assms unfolding newNodes_def by (rule distinct_map_filter)
  show "set (map node_id (newNodes g fetched)) \<inter> set (map node_id (nodes g)) = {}"
    by (auto simp: newNodes_def)
qed

lemma forced_pass:
  assumes "network g" "data_nodes d = Some fetched" "distinct (map node_id fetched)"
  shows "loadGraph True True (Some d) g =
           Inr (g\<lparr>nodes := nodes g @ newNodes g fetched,
                  edges := edges g @ newEdges g (data_edges d)\<rparr>)"
proof -
  have "(if newNodes g fetched \<noteq> [] then dataset_add (nodes g) (newNodes g fetched)
         else Inr (nodes g)) = Inr (nodes g @ newNodes g fetched)"
    using dataset_add_newNodes [OF assms(3), of g] by simp
  moreover have "(if newEdges g (data_edges d) \<noteq> [] then edges g @ newEdges g (data_edges d)
         else edges g) = edges g @ newEdges g (data_edges d)"
    by simp
  ultimately show ?thesis
    using assms(1,2) unfolding loadGraph_def Let_def newNodes_def newEdges_def by simp
qed

lemma newNodes_again:
  "newNodes (g\<lparr>nodes := nodes g @ newNodes g fetched, edges := es\<rparr>) fetched = []"
  by (auto simp: newNodes_def filter_empty_conv)

lemma newEdges_again:
  "newEdges (g\<lparr>nodes := ns, edges := edges g @ newEdges g fetched\<rparr>) fetched = []"
  by (auto simp: newEdges_def filter_empty_conv)

lemma distinct_merged_nodes:
  assumes "distinct (map node_id (nodes g))" "distinct (map node_id fetched)"
  shows "distinct (map node_id (nodes g @ newNodes g fetched))"
proof -
  have "distinct (map node_id (newNodes g fetched))"
    using assms(2) unfolding newNodes_def by (rule distinct_map_filter)
  moreover have "set (map node_id (newNodes g fetched)) \<inter> set (map node_id (nodes g)) = {}"
    by (auto simp: newNodes_def)
  then have "set (map node_id (nodes g)) \<inter> set (map node_id (newNodes g fetched)) = {}"
    by (simp only: Int_commute)
  ultimately show ?thesis using assms(1) by (simp only: map_append distinct_append)
qed

lemma distinct_merged_edges:
  assumes "distinct (map edgeKey (edges g))" "distinct (map edgeKey fetched)"
  shows "distinct (map edgeKey (edges g @ newEdges g fetched))"
proof -
  have "distinct (map edgeKey (newEdges g fetched))"
    using assms(2) unfolding newEdges_def by (rule distinct_map_filter)
  moreover have "set (map edgeKey (newEdges g fetched)) \<inter> set (map edgeKey (edges g)) = {}"
    by (auto simp: newEdges_def)
  then have "set (map edgeKey (edges g)) \<inter> set (map edgeKey (newEdges g fetched)) = {}"
    by (simp only: Int_commute)
  ultimately show ?thesis using assms(1) by (simp only: map_append distinct_append)
qed

lemma ids_merged_nodes:
  "set (map node_id (nodes g @ newNodes g fetched))
     = set (map node_id (nodes g)) \<union> set (map node_id fetched)"
  by (auto simp: newNodes_def)

lemma keys_merged_edges:
  "set (map edgeKey (edges g @ newEdges g fetched))
     = set (map edgeKey (edges g)) \<union> set (map edgeKey fetched)"
  by (auto simp: newEdges_def)

text \<open>
  Claim C1.  A forced pass after the seed, on a fetched node list without repeated ids,
  appends to the nodes exactly the fetched nodes whose id the state does not hold and to
  the edges exactly the fetched edges whose key the state does not hold; nothing is
  removed or reordered.  A second pass with the same fetched data changes nothing.  Ids
  stay distinct, keys stay distinct when the fetched keys are, and when the fetched data
  covers the state, the ids and keys of the result are those of the fetched data.
\<close>

theorem graph_merge_additive_idempotent:
  assumes "network g" "data_nodes d = Some fetched" "distinct (map node_id fetched)"
  shows "\<exists>g'. loadGraph True True (Some d) g = Inr g'
          \<and> nodes g' = nodes g @ newNodes g fetched
          \<and> edges g' = edges g @ newEdges g (data_edges d)
          \<and> network g'
          \<and> loadGraph True True (Some d) g' = Inr g'
          \<and> (distinct (map node_id (nodes g)) \<longrightarrow> distinct (map node_id (nodes g')))
          \<and> (distinct (map edgeKey (edges g)) \<and> distinct (map edgeKey (data_edges d)) \<longrightarrow>
               distinct (map edgeKey (edges g')))
          \<and> (set (map node_id (nodes g)) \<subseteq> set (map node_id fetched) \<longrightarrow>
               set (map node_id (nodes g')) = set (map node_id fetched))
          \<and> (set (map edgeKey (edges g)) \<subseteq> set (map edgeKey (data_edges d)) \<longrightarrow>
               set (map edgeKey (edges g')) = set (map edgeKey (data_edges d)))"
proof -
  let ?g = "g\<lparr>nodes := nodes g @ newNodes g fetched,
               edges := edges g @ newEdges g (data_edges d)\<rparr>"
  have first: "loadGraph True True (Some d) g = Inr ?g" using assms by (rule forced_pass)
  have "network ?g" using assms(1) by simp
  then have "loadGraph True True (Some d) ?g =
      Inr (?g\<lparr>nodes := nodes ?g @ newNodes ?g fetched,
               edges := edges ?g @ newEdges ?g (data_edges d)\<rparr>)"
    using assms(2,3) by (rule forced_pass)
  moreover have "newNodes ?g fetched = []" by (rule newNodes_again)
  moreover have "newEdges ?g (data_edges d) = []" by (rule newEdges_again)
  ultimately have second: "loadGraph True True (Some d) ?g = Inr ?g" by simp
  have "nodes ?g = nodes g @ newNodes g fetched"
    and "edges ?g = edges g @ newEdges g (data_edges d)" and "network ?g"
    using assms(1) by simp_all
  moreover have "distinct (map node_id (nodes g)) \<longrightarrow> distinct (map node_id (nodes ?g))"
    using distinct_merged_nodes [OF _ assms(3), of g] by simp
  moreover have "distinct (map edgeKey (edges g)) \<and> distinct (map edgeKey (data_edges d)) \<longrightarrow>
      distinct (map edgeKey (edges ?g))"
    using distinct_merged_edges [of g "data_edges d"] by simp
  moreover have "set (map node_id (nodes g)) \<subseteq> set (map node_id fetched) \<longrightarrow>
      set (map node_id (nodes ?g)) = set (map node_id fetched)"
    using ids_merged_nodes [of g fetched] by auto
  moreover have "set (map edgeKey (edges g)) \<subseteq> set (map edgeKey (data_edges d)) \<longrightarrow>
      set (map edgeKey (edges ?g)) = set (map edgeKey (data_edges d))"
    using keys_merged_edges [of g "data_edges d"] by auto
  ultimately show ?thesis using first second by blast
qed


theorem graph_merge_additive_idempotent_witness:
  "network seededGraph
   \<and> data_nodes laterResponse
         = Some (nodes seededGraph @ [\<lparr>node_id = js ''d'', node_label = js ''D''\<rparr>])
   \<and> distinct (map node_id (nodes seededGraph @ [\<lparr>node_id = js ''d'', node_label = js ''D''\<rparr>]))
   \<and> distinct (map node_id (nodes seededGraph))
   \<and> distinct (map edgeKey (edges seededGraph))
   \<and> distinct (map edgeKey (data_edges laterResponse))
   \<and> set (map node_id (nodes seededGraph))
         \<subseteq> set (map node_id (nodes seededGraph @ [\<lparr>node_id = js ''d'', node_label = js ''D''\<rparr>]))
   \<and> set (map edgeKey (edges seededGraph)) \<subseteq> set (map edgeKey (data_edges laterResponse))
   \<and> (\<exists>g'. loadGraph True True (Some laterResponse) seededGraph = Inr g'
          \<and> nodes g' = nodes seededGraph @ [\<lparr>node_id = js ''d'', node_label = js ''D''\<rparr>]
          \<and> edges g'
              = edges seededGraph
                @ [\<lparr>edge_from = js ''c'', edge_to = js ''d'', edge_label = js ''z''\<rparr>]
          \<and> length (nodes g') = 4 \<and> length (edges g') = 3
          \<and> distinct (map node_id (nodes g')) \<and> distinct (map edgeKey (edges g'))
          \<and> loadGraph True True (Some laterResponse) g' = Inr g')"
proof -
  let ?d = "\<lparr>node_id = js ''d'', node_label = js ''D''\<rparr>"
  let ?z = "\<lparr>edge_from = js ''c'', edge_to = js ''d'', edge_label = js ''z''\<rparr>"
  have n: "network seededGraph" by (simp add: seededGraph_def)
  have f: "data_nodes laterResponse = Some (nodes seededGraph @ [?d])"
    by (simp add: laterResponse_def)
  have df: "distinct (map node_id (nodes seededGraph @ [?d]))"
    by (simp add: seededGraph_def js_def)
  have dn: "distinct (map node_id (nodes seededGraph))" by (simp add: seededGraph_def js_def)
  have de: "distinct (map edgeKey (edges seededGraph))"
    by (simp add: seededGraph_def edgeKey_def js_def)
  have dd: "distinct (map edgeKey (data_edges laterResponse))"
    by (simp add: seededGraph_def laterResponse_def edgeKey_def js_def)
  have sn: "set (map node_id (nodes seededGraph)) \<subseteq> set (map node_id (nodes seededGraph @ [?d]))"
    by auto
  have se: "set (map edgeKey (edges seededGraph)) \<subseteq> set (map edgeKey (data_edges laterResponse))"
    by (auto simp: laterResponse_def)
  have nn: "newNodes seededGraph (nodes seededGraph @ [?d]) = [?d]"
    by (simp add: newNodes_def seededGraph_def js_def)
  have ne: "newEdges seededGraph (data_edges laterResponse) = [?z]"
    by (simp add: newEdges_def seededGraph_def laterResponse_def edgeKey_def js_def)
  have l: "length (nodes seededGraph) = 3" "length (edges seededGraph) = 2"
    by (simp_all add: seededGraph_def)
  from graph_merge_additive_idempotent [OF n f df]
  obtain g' where g': "loadGraph True True (Some laterResponse) seededGraph = Inr g'"
      "nodes g' = nodes seededGraph @ newNodes seededGraph (nodes seededGraph @ [?d])"
      "edges g' = edges seededGraph @ newEdges seededGraph (data_edges laterResponse)"
      "loadGraph True True (Some laterResponse) g' = Inr g'"
      "distinct (map node_id (nodes seededGraph)) \<longrightarrow> distinct (map node_id (nodes g'))"
      "distinct (map edgeKey (edges seededGraph)) \<and> distinct (map edgeKey (data_edges laterResponse))
         \<longrightarrow> distinct (map edgeKey (edges g'))"
    by blast
  from g'(2,3) l have "length (nodes g') = 4" "length (edges g') = 3"
    by (simp_all add: nn ne)
  with g' dn de dd have "\<exists>g'. loadGraph True True (Some laterResponse) seededGraph = Inr g'
          \<and> nodes g' = nodes seededGraph @ [?d]
          \<and> edges g' = edges seededGraph @ [?z]
          \<and> length (nodes g') = 4 \<and> length (edges g') = 3
          \<and> distinct (map node_id (nodes g')) \<and> distinct (map edgeKey (edges g'))
          \<and> loadGraph True True (Some laterResponse) g' = Inr g'"
    by (auto simp: nn ne)
  with n f df dn de dd sn se show ?thesis by blast
qed

text \<open>
  A response that repeats a node id makes \<^verbatim>\<open>DataSet.add\<close> raise in the forced pass, before
  the edges are looked at; this is why claim C1 is about fetched sets.
\<close>

lemma forced_pass_repeated_id_raises:
  "loadGraph True True
     (Some \<lparr>data_nodes = Some [\<lparr>node_id = js ''d'', node_label = js ''D''\<rparr>,
                              \<lparr>node_id = js ''d'', node_label = js ''D''\<rparr>],
            data_edges = []\<rparr>)
     seededGraph
   = Inl (DuplicateId (js ''d''))"
  by (simp add: loadGraph_def seededGraph_def js_def)

text \<open>
  Claim C9.  Once \<^verbatim>\<open>network\<close> is set, a pass that is not forced returns the state as it
  was, whatever the fetch delivers; so does \<^verbatim>\<open>switchMainView\<close> for the graph view, which
  calls \<^verbatim>\<open>loadGraph\<close> without an argument and only marks the view active.
\<close>

theorem nonforced_pass_leaves_graph:
  assumes "network g"
  shows "loadGraph container False response g = Inr g
       \<and> switchMainView (js ''graph'') container response (v, g)
           = Inr (v\<lparr>graphViewActive := True\<rparr>, g)"
proof -
  have "loadGraph container False response g = Inr g"
    using assms by (simp add: loadGraph_def split: option.splits)
  then show ?thesis by (simp add: switchMainView_def)
qed

theorem nonforced_pass_leaves_graph_witness:
  "network seededGraph
   \<and> loadGraph True False (Some laterResponse) seededGraph = Inr seededGraph"
proof -
  have n: "network seededGraph" by (simp add: seededGraph_def)
  show ?thesis using n nonforced_pass_leaves_graph [OF n, of True "Some laterResponse"] by simp
qed

section \<open>Properties of the dispatcher and of sending\<close>

lemma log_appended:
  "logConsole (ws_onmessage now (Some (Log content)) c) = addLog now content (logConsole c)"
  by (simp add: ws_onmessage_def Let_def)

lemma log_thoughts:
  "thoughtStream (ws_onmessage now (Some (Log content)) c) =
     (if includes_js content (js ''Heartbeat:'') \<and> trim (replace_rx heartbeat_rx content) \<noteq> []
      then addThought (trim (replace_rx heartbeat_rx content)) (thoughtStream c)
      else thoughtStream c)"
  by (simp add: ws_onmessage_def Let_def)

text \<open>
  The frames the server is said to send, with the marker in the first line: what follows
  the marker is the thought, and a frame with nothing after the marker leaves none.
\<close>

lemma heartbeat_prefix_example:
  "trim (replace_rx heartbeat_rx ([9889] @ js '' Heartbeat: Autonomy: check the logs ''))
     = js ''check the logs''"
  by (simp add: replace_rx_def heartbeat_rx_def startsWith_def trim_def isWhiteSpace_def
      isLineTerminator_def js_def)

lemma heartbeat_empty_example:
  "trim (replace_rx heartbeat_rx ([9889] @ js '' Heartbeat: Autonomy: '')) = []"
  by (simp add: replace_rx_def heartbeat_rx_def startsWith_def trim_def isWhiteSpace_def
      isLineTerminator_def js_def)

lemma includes_after_newline:
  "includes_js (js ''abc'' @ [10] @ js ''Heartbeat:'') (js ''Heartbeat:'')"
  by (simp add: js_def startsWith_def)

lemma extract_after_newline:
  "trim (replace_rx heartbeat_rx (js ''abc'' @ [10] @ js ''Heartbeat:'')) = js ''abc''"
  by (simp add: replace_rx_def heartbeat_rx_def startsWith_def trim_def isWhiteSpace_def
      isLineTerminator_def js_def)

text \<open>
  Claim C7 at the frame \<^verbatim>\<open>{"type": "log", "content": "abc\nHeartbeat:"}\<close>.  Nothing follows
  the marker, and yet the thought stream receives an entry: the line before the marker,
  which \<^verbatim>\<open>.*\<close> does not reach across the line feed.
\<close>

theorem heartbeat_after_newline_inserts_preceding_line:
  "thoughtStream (ws_onmessage now (Some (Log (js ''abc'' @ [10] @ js ''Heartbeat:''))) c)
     = addThought (js ''abc'') (thoughtStream c)
   \<and> logConsole (ws_onmessage now (Some (Log (js ''abc'' @ [10] @ js ''Heartbeat:''))) c)
     = addLog now (js ''abc'' @ [10] @ js ''Heartbeat:'') (logConsole c)"
proof -
  have ne: "js ''abc'' \<noteq> []" by (simp add: js_def)
  have "thoughtStream (ws_onmessage now (Some (Log (js ''abc'' @ [10] @ js ''Heartbeat:''))) c)
     = addThought (js ''abc'') (thoughtStream c)"
    unfolding log_thoughts extract_after_newline using includes_after_newline ne
    by (simp only: simp_thms if_True)
  then show ?thesis unfolding log_appended by (simp only: simp_thms)
qed

lemma sendMessage_empty: "trim (userInput c) = [] \<Longrightarrow> sendMessage now c = c"
  by (simp add: sendMessage_def)

lemma sendMessage_closed:
  "trim (userInput c) \<noteq> [] \<Longrightarrow> openSocket (ws c) (sockets c) = None \<Longrightarrow>
   sendMessage now c =
     c\<lparr>logConsole :=
         addLog now (js ''SYSTEM: Cannot send '' @ [8212] @ js '' uplink not connected.'')
           (logConsole c)\<rparr>"
  by (simp add: sendMessage_def)

lemma sendMessage_open:
  "trim (userInput c) \<noteq> [] \<Longrightarrow> openSocket (ws c) (sockets c) = Some i \<Longrightarrow>
   requests (sendMessage now c) = requests c @ [WsSend i (trim (userInput c))]
   \<and> userInput (sendMessage now c) = []
   \<and> logConsole (sendMessage now c) = logConsole c"
  by (simp add: sendMessage_def Let_def updateStatus_def addMessage_def)

lemma ether_sendMessage_rejected:
  "trim (chatInput e) = [] \<or> openSocket (ether_ws e) (ether_sockets e) = None \<Longrightarrow>
   ether_sendMessage marked e = e"
  by (auto simp: ether_sendMessage_def Let_def)

lemma ether_sendMessage_open:
  "trim (chatInput e) \<noteq> [] \<Longrightarrow> openSocket (ether_ws e) (ether_sockets e) = Some i \<Longrightarrow>
   ether_sent (ether_sendMessage marked e) = ether_sent e @ [(i, trim (chatInput e))]"
  by (simp add: ether_sendMessage_def Let_def setOrbState_def addChatMessage_def)

text \<open>
  Claim C8, as amended.  In both scripts \<^verbatim>\<open>sendMessage\<close> with an empty trimmed input changes
  nothing, and a frame goes out only when the trimmed input is not empty and the channel
  is open; it then carries the trimmed input on the open socket.  With a non-empty input
  and a channel that is not open, \<^verbatim>\<open>sendMessage\<close> of script.js appends the notice to the log
  console and changes nothing else (the input stays), while \<^verbatim>\<open>sendMessage\<close> of the Ether
  script returns without any change.
\<close>

theorem sendMessage_rejects_invalid_sends:
  "(trim (userInput c) = [] \<longrightarrow> sendMessage now c = c)
   \<and> (trim (userInput c) \<noteq> [] \<and> openSocket (ws c) (sockets c) = None \<longrightarrow>
        sendMessage now c =
          c\<lparr>logConsole :=
              addLog now (js ''SYSTEM: Cannot send '' @ [8212] @ js '' uplink not connected.'')
                (logConsole c)\<rparr>)
   \<and> (requests (sendMessage now c) \<noteq> requests c \<longrightarrow>
        trim (userInput c) \<noteq> []
        \<and> (\<exists>i. openSocket (ws c) (sockets c) = Some i
               \<and> requests (sendMessage now c) = requests c @ [WsSend i (trim (userInput c))]))
   \<and> (trim (chatInput e) = [] \<or> openSocket (ether_ws e) (ether_sockets e) = None \<longrightarrow>
        ether_sendMessage marked e = e)
   \<and> (ether_sent (ether_sendMessage marked e) \<noteq> ether_sent e \<longrightarrow>
        trim (chatInput e) \<noteq> []
        \<and> (\<exists>i. openSocket (ether_ws e) (ether_sockets e) = Some i
               \<and> ether_sent (ether_sendMessage marked e)
                   = ether_sent e @ [(i, trim (chatInput e))]))"
proof -
  have a: "requests (sendMessage now c) \<noteq> requests c \<longrightarrow>
        trim (userInput c) \<noteq> []
        \<and> (\<exists>i. openSocket (ws c) (sockets c) = Some i
               \<and> requests (sendMessage now c) = requests c @ [WsSend i (trim (userInput c))])"
  proof (cases "trim (userInput c) = []")
    case True
    then show ?thesis by (simp add: sendMessage_empty)
  next
    case False
    then show ?thesis
      using sendMessage_closed [of c now] sendMessage_open [of c _ now]
      by (cases "openSocket (ws c) (sockets c)") simp_all
  qed
  have b: "ether_sent (ether_sendMessage marked e) \<noteq> ether_sent e \<longrightarrow>
        trim (chatInput e) \<noteq> []
        \<and> (\<exists>i. openSocket (ether_ws e) (ether_sockets e) = Some i
               \<and> ether_sent (ether_sendMessage marked e)
                   = ether_sent e @ [(i, trim (chatInput e))])"
  proof (cases "trim (chatInput e) = [] \<or> openSocket (ether_ws e) (ether_sockets e) = None")
    case True
    then show ?thesis by (simp add: ether_sendMessage_rejected)
  next
    case False
    then show ?thesis using ether_sendMessage_open [of e _ marked] by auto
  qed
  show ?thesis
    using a b sendMessage_empty [of c now] sendMessage_closed [of c now]
      ether_sendMessage_rejected [of e marked]
    by blast
qed


theorem sendMessage_rejects_invalid_sends_witness:
  "trim (userInput blankPage) = []
   \<and> sendMessage (js ''12:00:00'') blankPage = blankPage
   \<and> trim (userInput (blankPage\<lparr>userInput := js '' hi ''\<rparr>)) \<noteq> []
   \<and> openSocket (ws (blankPage\<lparr>userInput := js '' hi ''\<rparr>))
         (sockets (blankPage\<lparr>userInput := js '' hi ''\<rparr>)) = None
   \<and> sendMessage (js ''12:00:00'') (blankPage\<lparr>userInput := js '' hi ''\<rparr>)
       = blankPage
           \<lparr>userInput := js '' hi '',
            logConsole :=
              [logLine (js ''12:00:00'')
                 (js ''SYSTEM: Cannot send '' @ [8212] @ js '' uplink not connected.'')]\<rparr>
   \<and> requests (sendMessage (js ''12:00:00'')
         (blankPage\<lparr>ws := Some 0, sockets := [OPEN], userInput := js '' hi ''\<rparr>))
       \<noteq> requests (blankPage\<lparr>ws := Some 0, sockets := [OPEN], userInput := js '' hi ''\<rparr>)
   \<and> requests (sendMessage (js ''12:00:00'')
         (blankPage\<lparr>ws := Some 0, sockets := [OPEN], userInput := js '' hi ''\<rparr>))
       = [WsSend 0 (js ''hi'')]
   \<and> openSocket (ether_ws blankEther) (ether_sockets blankEther) = None
   \<and> ether_sendMessage id blankEther = blankEther
   \<and> ether_sent (ether_sendMessage id
         (blankEther\<lparr>ether_ws := Some 0, ether_sockets := [OPEN], chatInput := js '' hi ''\<rparr>))
       \<noteq> ether_sent
           (blankEther\<lparr>ether_ws := Some 0, ether_sockets := [OPEN], chatInput := js '' hi ''\<rparr>)
   \<and> ether_sent (ether_sendMessage id
         (blankEther\<lparr>ether_ws := Some 0, ether_sockets := [OPEN], chatInput := js '' hi ''\<rparr>))
       = [(0, js ''hi'')]"
proof -
  let ?now = "js ''12:00:00''"
  let ?c2 = "blankPage\<lparr>userInput := js '' hi ''\<rparr>"
  let ?c3 = "blankPage\<lparr>ws := Some 0, sockets := [OPEN], userInput := js '' hi ''\<rparr>"
  let ?e3 = "blankEther\<lparr>ether_ws := Some 0, ether_sockets := [OPEN], chatInput := js '' hi ''\<rparr>"
  have t: "trim (js '' hi '') = js ''hi''" by (simp add: trim_def isWhiteSpace_def js_def)
  have ne: "js ''hi'' \<noteq> []" by (simp add: js_def)
  have h1: "trim (userInput blankPage) = []" by (simp add: blankPage_def trim_def)
  have h2: "trim (userInput ?c2) \<noteq> []" "openSocket (ws ?c2) (sockets ?c2) = None"
    using ne by (simp_all add: t blankPage_def openSocket_def)
  have o3: "openSocket (ws ?c3) (sockets ?c3) = Some 0" by (simp add: openSocket_def)
  have h3: "requests (sendMessage ?now ?c3) \<noteq> requests ?c3"
    using ne o3 by (simp add: sendMessage_def Let_def t updateStatus_def addMessage_def)
  have h4: "openSocket (ether_ws blankEther) (ether_sockets blankEther) = None"
    by (simp add: blankEther_def openSocket_def)
  have o5: "openSocket (ether_ws ?e3) (ether_sockets ?e3) = Some 0" by (simp add: openSocket_def)
  have h5: "ether_sent (ether_sendMessage id ?e3) \<noteq> ether_sent ?e3"
    using ne o5 by (simp add: ether_sendMessage_def Let_def t setOrbState_def addChatMessage_def)
  have l: "addLog ?now (js ''SYSTEM: Cannot send '' @ [8212] @ js '' uplink not connected.'') []
      = [logLine ?now (js ''SYSTEM: Cannot send '' @ [8212] @ js '' uplink not connected.'')]"
    by (simp add: addLog_room)
  have r1: "sendMessage ?now blankPage = blankPage"
    using sendMessage_rejects_invalid_sends [of blankPage ?now blankEther id] h1 by blast
  have r2: "sendMessage ?now ?c2 =
      ?c2\<lparr>logConsole :=
          addLog ?now (js ''SYSTEM: Cannot send '' @ [8212] @ js '' uplink not connected.'')
            (logConsole ?c2)\<rparr>"
    using sendMessage_rejects_invalid_sends [of ?c2 ?now blankEther id] h2 by blast
  have "logConsole ?c2 = []" by (simp add: blankPage_def)
  with r2 l have r2': "sendMessage ?now ?c2 =
      blankPage\<lparr>userInput := js '' hi '',
        logConsole :=
          [logLine ?now (js ''SYSTEM: Cannot send '' @ [8212] @ js '' uplink not connected.'')]\<rparr>"
    by simp
  have "\<exists>i. openSocket (ws ?c3) (sockets ?c3) = Some i
      \<and> requests (sendMessage ?now ?c3) = requests ?c3 @ [WsSend i (trim (userInput ?c3))]"
    using sendMessage_rejects_invalid_sends [of ?c3 ?now blankEther id] h3 by blast
  then have r3: "requests (sendMessage ?now ?c3) = [WsSend 0 (js ''hi'')]"
    using o3 by (simp add: t blankPage_def)
  have r4: "ether_sendMessage id blankEther = blankEther"
    using sendMessage_rejects_invalid_sends [of blankPage ?now blankEther id] h4 by blast
  have "\<exists>i. openSocket (ether_ws ?e3) (ether_sockets ?e3) = Some i
      \<and> ether_sent (ether_sendMessage id ?e3) = ether_sent ?e3 @ [(i, trim (chatInput ?e3))]"
    using sendMessage_rejects_invalid_sends [of blankPage ?now ?e3 id] h5 by blast
  then have r5: "ether_sent (ether_sendMessage id ?e3) = [(0, js ''hi'')]"
    using o5 by (simp add: t blankEther_def)
  show ?thesis using h1 r1 h2 r2' h3 r3 h4 r4 h5 r5 by blast
qed

text \<open>
  Claim C8 as stated has every rejected send on a closed channel logged.  In the Ether
  script, with the input \<^verbatim>\<open>hi\<close> and no connection, \<^verbatim>\<open>sendMessage\<close> returns the state as it
  was: nothing is sent, the input stays, and the stream of the page receives no line.
\<close>

theorem ether_sendMessage_silent_counterexample:
  "trim (chatInput (blankEther\<lparr>chatInput := js ''hi''\<rparr>)) \<noteq> []
   \<and> openSocket (ether_ws (blankEther\<lparr>chatInput := js ''hi''\<rparr>))
         (ether_sockets (blankEther\<lparr>chatInput := js ''hi''\<rparr>)) = None
   \<and> ether_sendMessage id (blankEther\<lparr>chatInput := js ''hi''\<rparr>)
       = blankEther\<lparr>chatInput := js ''hi''\<rparr>
   \<and> liveStream (ether_sendMessage id (blankEther\<lparr>chatInput := js ''hi''\<rparr>)) = []"
  by (simp add: ether_sendMessage_def blankEther_def openSocket_def trim_def isWhiteSpace_def
      js_def)

subsection \<open>The pattern on a marker in the first line\<close>

lemma star_total:
  "(\<And>t. k t \<noteq> None) \<Longrightarrow> rx_match (Star p) s k = k (dropWhile p s)"
proof (induction s)
  case Nil
  show ?case by simp
next
  case (Cons c cs)
  show ?case
  proof (cases "p c")
    case True
    have "rx_match (Star p) cs k = k (dropWhile p cs)" using Cons.prems by (rule Cons.IH)
    moreover obtain r where "k (dropWhile p cs) = Some r" using Cons.prems [of "dropWhile p cs"] by auto
    ultimately show ?thesis using True by simp
  next
    case False
    then show ?thesis by simp
  qed
qed

lemma star_backtrack:
  "\<forall>c \<in> set a. p c \<Longrightarrow> b = [] \<or> \<not> p (hd b) \<Longrightarrow>
   rx_match (Star p) (a @ b) k = backtrack k a b"
proof (induction a)
  case Nil
  then show ?case by (cases b) auto
next
  case (Cons x a)
  then show ?case by simp
qed

lemma star_Some: "rx_match (Star p) s Some = Some (dropWhile p s)"
  by (rule star_total) simp

lemma marker_tail:
  "rx_match (Star isWhiteSpace) s
     (\<lambda>t. rx_match (Opt (Seq (Lit (js ''Autonomy:'')) (Star isWhiteSpace))) t Some)
     = Some (afterMarker s)"
proof -
  have len: "length (js ''Autonomy:'') = 9" by (simp add: js_def)
  have opt: "rx_match (Opt (Seq (Lit (js ''Autonomy:'')) (Star isWhiteSpace))) t Some
      = Some (if startsWith t (js ''Autonomy:'') then dropWhile isWhiteSpace (drop 9 t) else t)"
    for t
    by (simp add: star_Some len del: rx_match.simps(2))
  have "rx_match (Star isWhiteSpace) s
      (\<lambda>t. rx_match (Opt (Seq (Lit (js ''Autonomy:'')) (Star isWhiteSpace))) t Some)
      = rx_match (Opt (Seq (Lit (js ''Autonomy:'')) (Star isWhiteSpace)))
          (dropWhile isWhiteSpace s) Some"
    by (rule star_total) (simp only: opt option.distinct not_False_eq_True)
  then show ?thesis
    by (simp only: opt afterMarker_def Let_def)
qed

text \<open>The continuation that \<^verbatim>\<open>.*\<close> of the pattern runs: the marker and what may follow it.\<close>

lemma marker_here:
  "rx_match
     (Seq (Lit (js ''Heartbeat:''))
       (Seq (Star isWhiteSpace) (Opt (Seq (Lit (js ''Autonomy:'')) (Star isWhiteSpace))))) s Some
     = (if startsWith s (js ''Heartbeat:'') then Some (afterMarker (drop 10 s)) else None)"
proof -
  have len: "length (js ''Heartbeat:'') = 10" by (simp add: js_def)
  show ?thesis
    by (simp only: rx_match.simps(1,4) marker_tail len)
qed

lemma startsWith_includes: "startsWith s l \<Longrightarrow> includes_js s l"
  by (cases s) simp_all

lemma includes_append_left: "includes_js s l \<Longrightarrow> includes_js (a @ s) l"
  by (induction a) simp_all

lemma backtrack_no_marker:
  assumes "\<not> includes_js (a @ b) l" and "\<And>s. \<not> startsWith s l \<Longrightarrow> k s = None"
  shows "backtrack k a b = None"
  using assms(1)
proof (induction a)
  case Nil
  then have "\<not> startsWith b l" using startsWith_includes by auto
  then show ?case by (simp add: assms(2))
next
  case (Cons x a)
  then have "\<not> startsWith (x # a @ b) l" "\<not> includes_js (a @ b) l" by simp_all
  then show ?case using Cons.IH by (simp add: assms(2))
qed

lemma backtrack_deeper:
  "backtrack k a b = Some r \<Longrightarrow> backtrack k (pre @ a) b = Some r"
  by (induction pre) simp_all


lemma marker_no_overlap:
  "includes_js (tl (js ''Heartbeat:'') @ rest) (js ''Heartbeat:'')
     = includes_js rest (js ''Heartbeat:'')"
  by (simp add: js_def startsWith_def)

lemma marker_no_terminator: "\<forall>c \<in> set (js ''Heartbeat:''). \<not> isLineTerminator c"
  by (simp add: js_def isLineTerminator_def)

lemma heartbeat_match_first_line:
  assumes pre: "\<forall>c \<in> set pre. \<not> isLineTerminator c"
    and once: "\<not> includes_js rest (js ''Heartbeat:'')"
  shows "rx_match heartbeat_rx (pre @ js ''Heartbeat:'' @ rest) Some = Some (afterMarker rest)"
proof -
  let ?M = "js ''Heartbeat:''"
  let ?dot = "\<lambda>c. \<not> isLineTerminator c"
  let ?l = "takeWhile ?dot rest"
  let ?b = "dropWhile ?dot rest"
  let ?K = "\<lambda>s. rx_match
     (Seq (Lit ?M)
       (Seq (Star isWhiteSpace) (Opt (Seq (Lit (js ''Autonomy:'')) (Star isWhiteSpace))))) s Some"
  have K: "?K s = (if startsWith s ?M then Some (afterMarker (drop 10 s)) else None)" for s
    by (rule marker_here)
  have len: "length ?M = 10" by (simp add: js_def)
  have M: "?M = hd ?M # tl ?M" by (simp add: js_def)
  have split: "pre @ ?M @ rest = (pre @ ?M @ ?l) @ ?b" by simp
  have line: "\<forall>c \<in> set (pre @ ?M @ ?l). ?dot c"
    using pre marker_no_terminator by (auto dest: set_takeWhileD)
  have stop: "?b = [] \<or> \<not> ?dot (hd ?b)"
    using hd_dropWhile [of ?dot rest] by blast
  have "\<not> includes_js ((tl ?M @ ?l) @ ?b) ?M"
    using once by (simp add: marker_no_overlap)
  then have "backtrack ?K (tl ?M @ ?l) ?b = None"
    by (rule backtrack_no_marker) (simp add: K)
  moreover have "?K (hd ?M # (tl ?M @ ?l) @ ?b) = Some (afterMarker rest)"
  proof -
    have "hd ?M # (tl ?M @ ?l) @ ?b = ?M @ rest" using M by (simp add: js_def)
    moreover have "?K (?M @ rest) = Some (afterMarker rest)"
      by (simp only: K) (simp add: startsWith_def len)
    ultimately show ?thesis by (simp only:)
  qed
  ultimately have "backtrack ?K (hd ?M # (tl ?M @ ?l)) ?b = Some (afterMarker rest)"
    by (simp only: backtrack.simps option.case)
  moreover have "hd ?M # (tl ?M @ ?l) = ?M @ ?l" using M by (simp add: js_def)
  ultimately have "backtrack ?K (?M @ ?l) ?b = Some (afterMarker rest)" by (simp only:)
  then have "backtrack ?K (pre @ ?M @ ?l) ?b = Some (afterMarker rest)"
    by (rule backtrack_deeper)
  moreover have "rx_match (Star ?dot) ((pre @ ?M @ ?l) @ ?b) ?K = backtrack ?K (pre @ ?M @ ?l) ?b"
    using line stop by (rule star_backtrack)
  ultimately have "rx_match (Star ?dot) (pre @ ?M @ rest) ?K = Some (afterMarker rest)"
    by (simp only: split)
  then show ?thesis by (simp only: heartbeat_rx_def rx_match.simps(4))
qed

lemma heartbeat_replace_first_line:
  assumes "\<forall>c \<in> set pre. \<not> isLineTerminator c"
    and "\<not> includes_js rest (js ''Heartbeat:'')"
  shows "replace_rx heartbeat_rx (pre @ js ''Heartbeat:'' @ rest) = afterMarker rest"
proof -
  have m: "rx_match heartbeat_rx (pre @ js ''Heartbeat:'' @ rest) Some = Some (afterMarker rest)"
    using assms by (rule heartbeat_match_first_line)
  have "replace_first heartbeat_rx [] (pre @ js ''Heartbeat:'' @ rest) = Some (afterMarker rest)"
    by (cases "pre @ js ''Heartbeat:'' @ rest") (use m in \<open>simp_all only: replace_first.simps option.case rev.simps append_Nil\<close>)
  then show ?thesis by (simp add: replace_rx_def)
qed

lemma includes_marker: "includes_js (pre @ js ''Heartbeat:'' @ rest) (js ''Heartbeat:'')"
proof -
  have "startsWith (js ''Heartbeat:'' @ rest) (js ''Heartbeat:'')" by (simp add: startsWith_def)
  then show ?thesis by (intro includes_append_left startsWith_includes)
qed

text \<open>
  For a log whose marker stands once and in the first line, the thought is what follows
  the marker, trimmed, and the thought stream is left alone when nothing follows.
\<close>

lemma heartbeat_in_first_line:
  assumes "\<forall>c \<in> set pre. \<not> isLineTerminator c"
    and "\<not> includes_js rest (js ''Heartbeat:'')"
  shows "thoughtStream (ws_onmessage now (Some (Log (pre @ js ''Heartbeat:'' @ rest))) c) =
     (if trim (afterMarker rest) \<noteq> []
      then addThought (trim (afterMarker rest)) (thoughtStream c)
      else thoughtStream c)"
  by (simp only: log_thoughts includes_marker heartbeat_replace_first_line [OF assms] simp_thms)

lemma no_marker_no_thought:
  "\<not> includes_js content (js ''Heartbeat:'') \<Longrightarrow>
   thoughtStream (ws_onmessage now (Some (Log content)) c) = thoughtStream c"
  by (simp add: log_thoughts)

end
